theory Spec2Isabelle
  imports Complex_Main "HOL-Library.AList"
begin

section \<open>Engine objects as the server reads them\<close>

text \<open>
  The transfer engine (WebTorrent) is an external collaborator. The server in
  \<^verbatim>\<open>src/server/index.js\<close> reads a handful of fields of the engine's objects; the records
  below hold exactly those fields. A field of an engine object changes between two requests
  only by the engine's own doing, so every handler below takes the objects as they are at the
  time of the call.

  JavaScript strings are modelled as \<^typ>\<open>string\<close>, one \<^typ>\<open>char\<close> per UTF-16 code unit
  below 256. JavaScript numbers that hold byte offsets, lengths and millisecond timestamps are
  modelled as \<^typ>\<open>int\<close> (the code only adds, subtracts and compares them; all of that is
  exact on doubles below \<open>2^53\<close>).
\<close>

record tfile =
  name :: string
  flength :: int

text \<open>
  An element of \<^verbatim>\<open>torrent.pieces\<close>: \<open>None\<close> is a falsy slot (\<^verbatim>\<open>null\<close>/\<^verbatim>\<open>undefined\<close>),
  \<open>piece_done\<close> is \<^verbatim>\<open>.done\<close>, and \<open>has_priority\<close> says whether
  \<^verbatim>\<open>typeof piece.priority === 'function'\<close>.
\<close>

record piece =
  piece_done :: bool
  has_priority :: bool

record torrent =
  infoHash :: string
  destroyed :: bool
  ready :: bool
  files :: "tfile list"
  pieces :: "piece option list"
  progress :: rat

section \<open>The session registry: \<^verbatim>\<open>activeTorrents\<close>\<close>

text \<open>
  \<^verbatim>\<open>const activeTorrents = new Map(); // Map<magnetUrl, { torrent, lastAccessed, createdAt }>\<close>

  A JavaScript \<^verbatim>\<open>Map\<close> iterates in insertion order, \<^verbatim>\<open>set\<close> on a present key keeps
  the key's position and \<^verbatim>\<open>set\<close> on an absent key appends. That is an association list
  with \<^const>\<open>AList.update\<close> for \<^verbatim>\<open>set\<close>, \<^const>\<open>AList.delete\<close> for \<^verbatim>\<open>delete\<close> and
  \<^const>\<open>map_of\<close> for \<^verbatim>\<open>get\<close>/\<^verbatim>\<open>has\<close>.
\<close>

record tdata =
  torrent :: torrent
  lastAccessed :: int
  createdAt :: int

type_synonym registry = "(string \<times> tdata) list"

text \<open>Calls the server makes into the engine, in the order they are made.\<close>

datatype engine_call = Add string | Destroy string

record server =
  activeTorrents :: registry
  engine_log :: "engine_call list"

definition TORRENT_TIMEOUT :: int where
  "TORRENT_TIMEOUT = 30 * 60 * 1000"

definition MAX_ACTIVE_TORRENTS :: nat where
  "MAX_ACTIVE_TORRENTS = 3"

text \<open>
  \<^verbatim>\<open>destroyTorrent(magnetUrl, data, reason)\<close>: calls \<^verbatim>\<open>data.torrent.destroy\<close> unless the
  torrent is already destroyed, then deletes the key from the map.
\<close>

definition destroyTorrent :: "string \<Rightarrow> tdata \<Rightarrow> server \<Rightarrow> server" where
  "destroyTorrent magnetUrl data s =
     s\<lparr> engine_log := engine_log s @
            (if \<not> destroyed (torrent data) then [Destroy (infoHash (torrent data))] else []),
        activeTorrents := AList.delete magnetUrl (activeTorrents s) \<rparr>"

text \<open>
  The interval callback: every entry whose \<^verbatim>\<open>now - data.lastAccessed\<close> exceeds
  \<^verbatim>\<open>TORRENT_TIMEOUT\<close> is destroyed. The loop runs over the entries of the map as they
  are when it starts; deleting the current key does not disturb the iteration.
\<close>

definition sweep :: "int \<Rightarrow> server \<Rightarrow> server" where
  "sweep now s =
     fold (\<lambda>(magnetUrl, data) s'.
             if now - lastAccessed data > TORRENT_TIMEOUT
             then destroyTorrent magnetUrl data s' else s')
          (activeTorrents s) s"

text \<open>
  \<^verbatim>\<open>cleanupOldTorrents(newMagnetUrl)\<close>. \<^verbatim>\<open>Array.prototype.sort\<close> is a stable sort and the
  comparator \<^verbatim>\<open>a[1].lastAccessed - b[1].lastAccessed\<close> orders by the timestamp alone, so the
  sorted array is \<^const>\<open>sort_key\<close> on \<^const>\<open>lastAccessed\<close>. \<^verbatim>\<open>toRemove\<close> is computed once,
  before the loop; since the size is at least the maximum there, it is between 1 and the size
  and every \<^verbatim>\<open>sortedTorrents[i]\<close> of the loop exists.
\<close>

definition sortedTorrents :: "registry \<Rightarrow> registry" where
  "sortedTorrents m = sort_key (\<lambda>e. lastAccessed (snd e)) m"

definition cleanupOldTorrents :: "string \<Rightarrow> server \<Rightarrow> server" where
  "cleanupOldTorrents newMagnetUrl s =
     (if length (activeTorrents s) \<ge> MAX_ACTIVE_TORRENTS then
        let toRemove = length (activeTorrents s) - MAX_ACTIVE_TORRENTS + 1
        in fold (\<lambda>(magnetUrl, data) s'.
                   if magnetUrl \<noteq> newMagnetUrl then destroyTorrent magnetUrl data s' else s')
                (take toRemove (sortedTorrents (activeTorrents s))) s
      else s)"

section \<open>Starting a session: \<^verbatim>\<open>POST /api/stream\<close>\<close>

text \<open>
  \<^verbatim>\<open>file.name.endsWith(suffix)\<close> and the extension test the handlers repeat.
\<close>

definition endsWith :: "string \<Rightarrow> string \<Rightarrow> bool" where
  "endsWith str suf \<longleftrightarrow>
     length suf \<le> length str \<and> drop (length str - length suf) str = suf"

definition isVideo :: "tfile \<Rightarrow> bool" where
  "isVideo file \<longleftrightarrow>
     endsWith (name file) ''.mp4'' \<or> endsWith (name file) ''.mkv'' \<or>
     endsWith (name file) ''.avi'' \<or> endsWith (name file) ''.webm''"

datatype post_response =
    Bad_request
  | Existing string string bool
  | Added string
  | Failed_to_add

text \<open>
  The tail of the handler, from \<^verbatim>\<open>cleanupOldTorrents(magnetUrl)\<close> on. \<open>added\<close> is what
  \<^verbatim>\<open>client.add\<close> does: \<open>Some torrent\<close> is the object it returns, \<open>None\<close> is a throw, which
  the handler's \<^verbatim>\<open>catch\<close> turns into status 500 after the cleanup has already run.
  \<open>t_la\<close> and \<open>t_ca\<close> are the two readings of \<^verbatim>\<open>Date.now()\<close> stored in the new entry.
\<close>

definition add_torrent ::
  "string \<Rightarrow> int \<Rightarrow> int \<Rightarrow> torrent option \<Rightarrow> server \<Rightarrow> post_response \<times> server" where
  "add_torrent magnetUrl t_la t_ca added s =
     (let s1 = cleanupOldTorrents magnetUrl s;
          s2 = s1\<lparr> engine_log := engine_log s1 @ [Add magnetUrl] \<rparr>
      in case added of
           None \<Rightarrow> (Failed_to_add, s2)
         | Some t \<Rightarrow>
             (Added (infoHash t),
              s2\<lparr> activeTorrents :=
                    AList.update magnetUrl
                      \<lparr> torrent = t, lastAccessed = t_la, createdAt = t_ca \<rparr>
                      (activeTorrents s2) \<rparr>))"

text \<open>
  The handler. An empty \<^verbatim>\<open>magnetUrl\<close> is falsy and answered with 400. For a key that is
  present the timestamp is refreshed first (\<open>t_touch\<close> is that reading of the clock); a
  destroyed torrent's entry is deleted; a live torrent is returned only when a video file is
  found among its files, and every other path falls through to \<^const>\<open>add_torrent\<close>.
\<close>

definition post_api_stream ::
  "string \<Rightarrow> int \<Rightarrow> int \<Rightarrow> int \<Rightarrow> torrent option \<Rightarrow> server \<Rightarrow> post_response \<times> server" where
  "post_api_stream magnetUrl t_touch t_la t_ca added s =
     (if magnetUrl = [] then (Bad_request, s)
      else case map_of (activeTorrents s) magnetUrl of
        None \<Rightarrow> add_torrent magnetUrl t_la t_ca added s
      | Some data \<Rightarrow>
          let s1 = s\<lparr> activeTorrents :=
                       AList.update magnetUrl (data\<lparr> lastAccessed := t_touch \<rparr>)
                         (activeTorrents s) \<rparr>
          in if destroyed (torrent data)
             then add_torrent magnetUrl t_la t_ca added
                    (s1\<lparr> activeTorrents := AList.delete magnetUrl (activeTorrents s1) \<rparr>)
             else (case find isVideo (files (torrent data)) of
                     Some videoFile \<Rightarrow>
                       (Existing (infoHash (torrent data)) (name videoFile)
                          (ready (torrent data)), s1)
                   | None \<Rightarrow> add_torrent magnetUrl t_la t_ca added s1))"

text \<open>
  The loop both the status poll and the download run before anything else:
  \<^verbatim>\<open>for (const [magnetUrl, data] of activeTorrents.entries())
      if (data.torrent.infoHash === torrentId) { data.lastAccessed = Date.now(); break; }\<close>
\<close>

fun touch :: "string \<Rightarrow> int \<Rightarrow> registry \<Rightarrow> registry" where
  "touch torrentId now [] = []"
| "touch torrentId now ((magnetUrl, data) # rest) =
     (if infoHash (torrent data) = torrentId
      then (magnetUrl, data\<lparr> lastAccessed := now \<rparr>) # rest
      else (magnetUrl, data) # touch torrentId now rest)"

section \<open>Strings and numbers of the HTTP layer\<close>

text \<open>
  \<^verbatim>\<open>String(n)\<close> for an integer \<open>n\<close> (template strings and header values): decimal digits,
  with a minus sign for a negative number.
\<close>

fun digits10 :: "nat \<Rightarrow> string" where
  "digits10 n =
     (if n < 10 then [''0123456789'' ! n]
      else digits10 (n div 10) @ [''0123456789'' ! (n mod 10)])"

declare digits10.simps [simp del]

definition show_int :: "int \<Rightarrow> string" where
  "show_int i = (if i < 0 then CHR ''-'' # digits10 (nat (- i)) else digits10 (nat i))"

text \<open>
  \<^verbatim>\<open>parseInt(str, 10)\<close>: leading white space is skipped, one sign is read, then the longest
  run of decimal digits; no digit at all gives \<^verbatim>\<open>NaN\<close>, here \<open>None\<close>. With the radix given
  as 10 no \<^verbatim>\<open>0x\<close> prefix is recognised. The value is the exact integer; JavaScript rounds a
  run of more than 15 digits to the nearest double.
\<close>

definition isWhiteSpace :: "char \<Rightarrow> bool" where
  "isWhiteSpace c \<longleftrightarrow>
     c \<in> set [CHR 0x09, CHR 0x0A, CHR 0x0B, CHR 0x0C, CHR 0x0D, CHR 0x20, CHR 0xA0]"

definition isDigit :: "char \<Rightarrow> bool" where
  "isDigit c \<longleftrightarrow> c \<in> set ''0123456789''"

definition digit_val :: "char \<Rightarrow> nat" where
  "digit_val c = length (takeWhile (\<lambda>d. d \<noteq> c) ''0123456789'')"

definition parseInt :: "string \<Rightarrow> int option" where
  "parseInt str =
     (let s1 = dropWhile isWhiteSpace str;
          neg = (s1 \<noteq> [] \<and> hd s1 = CHR ''-'');
          s2 = (if s1 \<noteq> [] \<and> (hd s1 = CHR ''-'' \<or> hd s1 = CHR ''+'') then tl s1 else s1);
          ds = takeWhile isDigit s2;
          n = int (foldl (\<lambda>acc c. 10 * acc + digit_val c) 0 ds)
      in if ds = [] then None else Some (if neg then - n else n))"

text \<open>
  \<^verbatim>\<open>str.replace(/bytes=/, '')\<close> removes the first occurrence of the pattern, wherever it
  is; \<^verbatim>\<open>str.split('-')\<close> cuts at every dash and always returns at least one part.
\<close>

fun remove_first :: "string \<Rightarrow> string \<Rightarrow> string" where
  "remove_first pat [] = []"
| "remove_first pat (c # cs) =
     (if take (length pat) (c # cs) = pat then drop (length pat) (c # cs)
      else c # remove_first pat cs)"

fun split_on :: "char \<Rightarrow> string \<Rightarrow> string list" where
  "split_on sep [] = [[]]"
| "split_on sep (c # cs) =
     (if c = sep then [] # split_on sep cs
      else (case split_on sep cs of
              p # ps \<Rightarrow> (c # p) # ps
            | [] \<Rightarrow> [[c]]))"

text \<open>
  The range parsing that the stream and the download handler both spell out:
  \<^verbatim>\<open>const parts = range.replace(/bytes=/, '').split('-');
  const start = parseInt(parts[0], 10);
  const end = parts[1] ? parseInt(parts[1], 10) : videoFile.length - 1;\<close>
  \<^verbatim>\<open>parts[1]\<close> is falsy when it is missing or empty.
\<close>

definition parse_range :: "string \<Rightarrow> int \<Rightarrow> int option \<times> int option" where
  "parse_range range_hdr len =
     (let parts = split_on (CHR ''-'') (remove_first ''bytes='' range_hdr);
          start = parseInt (hd parts);
          end' = (if length parts > 1 \<and> parts ! 1 \<noteq> [] then parseInt (parts ! 1)
                  else Some (len - 1))
      in (start, end'))"

section \<open>Responses\<close>

text \<open>
  \<open>headers\<close> holds what the source sets with \<^verbatim>\<open>res.setHeader\<close>, \<open>status\<close> the status
  code (200 until the source changes it) and \<open>body\<close> what the source hands to the response:
  a JSON error object, the status projection, or a reader piped into it. What the web
  framework adds by itself when it serialises a JSON body is not part of the source.
\<close>

datatype body =
    No_body
  | Json_error string
  | Json_info bool "tfile option"
  | Pipe int int
  | Pipe_all

record response =
  status :: nat
  headers :: "(string \<times> string) list"
  body :: body
  headersSent :: bool

definition res0 :: response where
  "res0 = \<lparr> status = 200, headers = [], body = No_body, headersSent = False \<rparr>"

definition setHeader :: "string \<Rightarrow> string \<Rightarrow> response \<Rightarrow> response" where
  "setHeader field val res = res\<lparr> headers := AList.update field val (headers res) \<rparr>"

text \<open>\<^verbatim>\<open>res.status(code).json({ error: msg })\<close> sends the response.\<close>

definition json :: "nat \<Rightarrow> string \<Rightarrow> response \<Rightarrow> response" where
  "json code msg res = res\<lparr> status := code, body := Json_error msg, headersSent := True \<rparr>"

section \<open>Opening a stream: \<^verbatim>\<open>GET /api/torrent/:torrentId/stream\<close>\<close>

text \<open>
  The helper \<^verbatim>\<open>createStream(start, end)\<close> of the stream handler. A negative start is set
  to 0 and an end at or beyond the file's length is set to the last byte, in this order, before
  the only range test \<^verbatim>\<open>start > end\<close>. \<open>reader_throws\<close> says whether the engine's
  \<^verbatim>\<open>videoFile.createReadStream\<close> throws; the helper's \<^verbatim>\<open>catch\<close> answers that with 500.
\<close>

definition createStream ::
  "torrent \<Rightarrow> tfile \<Rightarrow> bool \<Rightarrow> int \<Rightarrow> int \<Rightarrow> response \<Rightarrow> response" where
  "createStream tor videoFile reader_throws start0 end0 res =
     (let start = (if start0 < 0 then 0 else start0);
          end' = (if end0 \<ge> flength videoFile then flength videoFile - 1 else end0)
      in if start > end' then
           (if \<not> headersSent res then json 416 ''Range Not Satisfiable'' res else res)
         else if destroyed tor then
           (if \<not> headersSent res then json 410 ''Torrent no longer available'' res else res)
         else if reader_throws then
           (if \<not> headersSent res then json 500 ''Failed to create stream'' res else res)
         else res\<lparr> body := Pipe start end' \<rparr>)"

definition contentType :: "tfile \<Rightarrow> string" where
  "contentType videoFile =
     (if endsWith (name videoFile) ''.mkv'' then ''video/x-matroska''
      else if endsWith (name videoFile) ''.avi'' then ''video/x-msvideo''
      else if endsWith (name videoFile) ''.webm'' then ''video/webm''
      else ''video/mp4'')"

text \<open>
  The handler. \<open>torrents\<close> is the engine's \<^verbatim>\<open>client.torrents\<close> and \<open>range_hdr\<close> is
  \<^verbatim>\<open>req.headers.range\<close> (\<open>None\<close> when the header is absent; an empty header is falsy too).
  The handler never reads or writes \<^verbatim>\<open>activeTorrents\<close>: the server state is returned as
  it came.
\<close>

definition get_torrent_stream ::
  "torrent list \<Rightarrow> string \<Rightarrow> string option \<Rightarrow> bool \<Rightarrow> server \<Rightarrow> response \<times> server" where
  "get_torrent_stream torrents torrentId range_hdr reader_throws s =
     (case find (\<lambda>t. infoHash t = torrentId) torrents of
        None \<Rightarrow> (json 404 ''Torrent not found'' res0, s)
      | Some tor \<Rightarrow>
         (case find isVideo (files tor) of
            None \<Rightarrow> (json 404 ''No video file found in torrent'' res0, s)
          | Some videoFile \<Rightarrow>
              if destroyed tor then (json 410 ''Torrent has been destroyed'' res0, s)
              else
                let res1 =
                      setHeader ''Connection'' ''keep-alive''
                     (setHeader ''Expires'' ''0''
                     (setHeader ''Pragma'' ''no-cache''
                     (setHeader ''Cache-Control'' ''no-cache, no-store, must-revalidate''
                     (setHeader ''Content-Length'' (show_int (flength videoFile))
                     (setHeader ''Accept-Ranges'' ''bytes''
                     (setHeader ''Content-Type'' (contentType videoFile) res0))))))
                in if range_hdr \<noteq> None \<and> range_hdr \<noteq> Some [] then
                     (case parse_range (the range_hdr) (flength videoFile) of
                        (Some start, Some end') \<Rightarrow>
                          let chunksize = (end' - start) + 1;
                              res2 =
                                setHeader ''Connection'' ''keep-alive''
                               (setHeader ''Content-Length'' (show_int chunksize)
                               (setHeader ''Content-Range''
                                  (''bytes '' @ show_int start @ ''-'' @ show_int end' @ ''/'' @
                                   show_int (flength videoFile))
                                  (res1\<lparr> status := 206 \<rparr>)))
                          in (createStream tor videoFile reader_throws start end' res2, s)
                      | _ \<Rightarrow> (json 400 ''Invalid range'' res1, s))
                   else
                     (createStream tor videoFile reader_throws 0 (flength videoFile - 1)
                        (setHeader ''Connection'' ''keep-alive'' res1), s)))"

section \<open>Polling the status: \<^verbatim>\<open>GET /api/torrent/:torrentId/info\<close>\<close>

text \<open>
  Of the status projection the model keeps \<^verbatim>\<open>hasMetadata\<close> and \<^verbatim>\<open>videoFile\<close>; the other
  fields are counters copied from the engine. \<open>now\<close> is the reading of \<^verbatim>\<open>Date.now()\<close>
  in the loop that refreshes the timestamp.
\<close>

definition get_torrent_info ::
  "torrent list \<Rightarrow> string \<Rightarrow> int \<Rightarrow> server \<Rightarrow> response \<times> server" where
  "get_torrent_info torrents torrentId now s =
     (case find (\<lambda>t. infoHash t = torrentId) torrents of
        None \<Rightarrow> (json 404 ''Torrent not found'' res0, s)
      | Some tor \<Rightarrow>
          let s1 = s\<lparr> activeTorrents := touch torrentId now (activeTorrents s) \<rparr>;
              hasMetadata = (files tor \<noteq> []);
              videoFile = (if hasMetadata then find isVideo (files tor) else None)
          in (res0\<lparr> body := Json_info hasMetadata videoFile, headersSent := True \<rparr>, s1))"

section \<open>Opening a download: \<^verbatim>\<open>GET /api/torrent/:torrentId/download\<close>\<close>

text \<open>
  \<^verbatim>\<open>videoFile.name.replace(/[^a-zA-Z0-9.-]/g, '_')\<close>: every code unit outside the class
  becomes an underscore, one for one. In the header value
  \<^verbatim>\<open>`attachment; filename="${fileName}"`\<close> the double quote is written \<open>CHR 0x22\<close>.
\<close>

definition sanitize_char :: "char \<Rightarrow> char" where
  "sanitize_char c =
     (if c \<in> set ''abcdefghijklmnopqrstuvwxyzABCDEFGHIJKLMNOPQRSTUVWXYZ0123456789.-''
      then c else CHR ''_'')"

definition sanitize :: "string \<Rightarrow> string" where
  "sanitize str = map sanitize_char str"

text \<open>
  The handler refreshes the timestamp as the status poll does, right after the torrent is
  found. In the branch with a range the reader is created and piped with no check of the
  range against the file's length; in both branches a throw of the reader's creation is not
  caught by the handler, and the model leaves that case out (the reader is created).
\<close>

definition get_torrent_download ::
  "torrent list \<Rightarrow> string \<Rightarrow> string option \<Rightarrow> int \<Rightarrow> server \<Rightarrow> response \<times> server" where
  "get_torrent_download torrents torrentId range_hdr now s =
     (case find (\<lambda>t. infoHash t = torrentId) torrents of
        None \<Rightarrow> (json 404 ''Torrent not found'' res0, s)
      | Some tor \<Rightarrow>
          let s1 = s\<lparr> activeTorrents := touch torrentId now (activeTorrents s) \<rparr>
          in (case find isVideo (files tor) of
                None \<Rightarrow> (json 404 ''No video file found in torrent'' res0, s1)
              | Some videoFile \<Rightarrow>
                  if destroyed tor then (json 410 ''Torrent has been destroyed'' res0, s1)
                  else
                    let fileName = sanitize (name videoFile);
                        res1 =
                          setHeader ''Accept-Ranges'' ''bytes''
                         (setHeader ''Content-Length'' (show_int (flength videoFile))
                         (setHeader ''Content-Disposition''
                            (''attachment; filename='' @ [CHR 0x22] @ fileName @ [CHR 0x22])
                         (setHeader ''Content-Type'' ''application/octet-stream'' res0)))
                    in if range_hdr \<noteq> None \<and> range_hdr \<noteq> Some [] then
                         (case parse_range (the range_hdr) (flength videoFile) of
                            (Some start, Some end') \<Rightarrow>
                              if start > end' then (json 416 ''Range Not Satisfiable'' res1, s1)
                              else
                                let chunksize = (end' - start) + 1
                                in ((setHeader ''Content-Length'' (show_int chunksize)
                                    (setHeader ''Content-Range''
                                       (''bytes '' @ show_int start @ ''-'' @ show_int end' @
                                        ''/'' @ show_int (flength videoFile))
                                       (res1\<lparr> status := 206 \<rparr>)))\<lparr> body := Pipe start end' \<rparr>, s1)
                          | _ \<Rightarrow> (json 416 ''Range Not Satisfiable'' res1, s1))
                       else (res1\<lparr> body := Pipe_all \<rparr>, s1)))"

section \<open>Runs of the server\<close>

text \<open>
  One event per thing that can happen to the registry: the four handlers above, the
  interval callback, and the engine changing the object an entry refers to (files become
  known, the torrent is destroyed after an error, and so on). The arguments of an event are
  the inputs the handler reads from its environment: the clock, the request, and the engine.
\<close>

datatype event =
    Start_session string int int int "torrent option"
  | Open_stream "torrent list" string "string option" bool
  | Poll_info "torrent list" string int
  | Open_download "torrent list" string "string option" int
  | Sweep int
  | Engine_change string torrent

fun step :: "event \<Rightarrow> server \<Rightarrow> server" where
  "step (Start_session magnetUrl t_touch t_la t_ca added) s =
     snd (post_api_stream magnetUrl t_touch t_la t_ca added s)"
| "step (Open_stream torrents torrentId range_hdr reader_throws) s =
     snd (get_torrent_stream torrents torrentId range_hdr reader_throws s)"
| "step (Poll_info torrents torrentId now) s =
     snd (get_torrent_info torrents torrentId now s)"
| "step (Open_download torrents torrentId range_hdr now) s =
     snd (get_torrent_download torrents torrentId range_hdr now s)"
| "step (Sweep now) s = sweep now s"
| "step (Engine_change magnetUrl t) s =
     s\<lparr> activeTorrents :=
          map (\<lambda>(k, data). if k = magnetUrl then (k, data\<lparr> torrent := t \<rparr>) else (k, data))
            (activeTorrents s) \<rparr>"

definition server0 :: server where
  "server0 = \<lparr> activeTorrents = [], engine_log = [] \<rparr>"

definition run :: "event list \<Rightarrow> server \<Rightarrow> server" where
  "run evs s = fold step evs s"

text \<open>The live sessions of the registry: the entries whose torrent is not destroyed.\<close>

definition live :: "server \<Rightarrow> registry" where
  "live s = filter (\<lambda>e. \<not> destroyed (torrent (snd e))) (activeTorrents s)"

section \<open>Double-precision numbers\<close>

text \<open>
  \<^verbatim>\<open>torrent.progress\<close> is a JavaScript number, a double, and the product
  \<^verbatim>\<open>torrent.progress * torrent.pieces.length\<close> is rounded to a double before
  \<^verbatim>\<open>Math.floor\<close> sees it. A finite double is modelled by the rational it stands for. \<open>fl\<close>
  rounds a rational to the nearest number with a significand of 53 bits, ties going to the
  even significand, as IEEE 754 does for every result in the normal range; a decimal literal
  of the source such as \<^verbatim>\<open>0.01\<close> stands for \<open>fl (1 / 100)\<close>. \<open>bitlen n\<close> is the number of binary
  digits of \<open>n\<close>, and \<open>ilog2 y\<close> the exponent \<open>e\<close> with \<open>2^e \<le> y < 2^(e+1)\<close> for a positive \<open>y\<close>.
\<close>

function bitlen :: "int \<Rightarrow> int" where
  "bitlen n = (if n \<le> 0 then 0 else 1 + bitlen (n div 2))"
  by pat_completeness auto
termination
  by (relation "measure nat") auto

declare bitlen.simps [simp del]

definition pow2 :: "int \<Rightarrow> rat" where
  "pow2 k = (if k \<ge> 0 then 2 ^ nat k else 1 / 2 ^ nat (- k))"

definition ilog2 :: "rat \<Rightarrow> int" where
  "ilog2 y =
     (let (a, b) = quotient_of y;
          k = bitlen a - bitlen b
      in if y \<ge> pow2 k then k else k - 1)"

definition round_half_even :: "rat \<Rightarrow> int" where
  "round_half_even q =
     (let f = \<lfloor>q\<rfloor>; d = q - of_int f
      in if d < 1 / 2 then f else if d > 1 / 2 then f + 1
         else if even f then f else f + 1)"

definition fl_pos :: "rat \<Rightarrow> rat" where
  "fl_pos y = (let ulp = pow2 (ilog2 y - 52) in of_int (round_half_even (y / ulp)) * ulp)"

definition fl :: "rat \<Rightarrow> rat" where
  "fl x = (if x = 0 then 0 else if x < 0 then - fl_pos (- x) else fl_pos x)"

section \<open>The piece-priority callbacks\<close>

text \<open>
  Both callbacks are modelled by the list of piece indices on which \<^verbatim>\<open>priority(1)\<close> is
  called, in the order of the calls; a throw of that call is caught and ignored by the source.

  The callback given to \<^verbatim>\<open>client.add\<close>, which the engine calls once the torrent is ready:
  the first \<^verbatim>\<open>Math.min(numPieces, 100)\<close> indices, each only if the slot is truthy and has a
  \<^verbatim>\<open>priority\<close> function.
\<close>

definition on_ready :: "torrent \<Rightarrow> nat list" where
  "on_ready tor =
     (if files tor \<noteq> [] then
        (case find isVideo (files tor) of
           None \<Rightarrow> []
         | Some videoFile \<Rightarrow>
             let numPieces = length (pieces tor)
             in filter (\<lambda>i. case pieces tor ! i of
                               None \<Rightarrow> False
                             | Some p \<Rightarrow> has_priority p)
                  [0 ..< min numPieces 100])
      else [])"

text \<open>
  \<^verbatim>\<open>torrent.progress\<close> as the handler reads it: a double. The field of the model holds the
  ratio the engine reports, and the number read is the double nearest to it; when the field
  holds a double already, that is the field itself.
\<close>

definition progress_read :: "torrent \<Rightarrow> rat" where
  "progress_read tor = fl (progress tor)"

text \<open>
  The handler of the engine's \<^verbatim>\<open>download\<close> event. Nothing is done unless the files are
  known and \<^verbatim>\<open>torrent.progress > 0.01\<close>, a comparison of two doubles. Then
  \<^verbatim>\<open>currentPiece = Math.floor(torrent.progress * torrent.pieces.length)\<close> is the floor of the
  rounded product (the length of an array is an integer below \<open>2^32\<close>, exact as a double),
  and the loop runs from \<^verbatim>\<open>currentPiece\<close> up to
  \<^verbatim>\<open>Math.min(currentPiece + bufferAhead, torrent.pieces.length)\<close>; a slot is skipped when it
  is falsy, done, or has no \<^verbatim>\<open>priority\<close> function. With a progress above 0.01
  \<^verbatim>\<open>currentPiece\<close> is not negative, so every index of the loop is inside the array, and the
  sum \<^verbatim>\<open>currentPiece + bufferAhead\<close> is exact whenever the loop runs at all. A product beyond
  the largest double is \<^verbatim>\<open>Infinity\<close> in JavaScript, and the loop is empty then, as it is here
  for the finite value.
\<close>

definition bufferAhead :: int where
  "bufferAhead = 20"

definition on_download :: "torrent \<Rightarrow> int list" where
  "on_download tor =
     (if files tor \<noteq> [] \<and> progress_read tor > fl (1 / 100) then
        (case find isVideo (files tor) of
           None \<Rightarrow> []
         | Some videoFile \<Rightarrow>
             let currentPiece = \<lfloor>fl (progress_read tor * of_nat (length (pieces tor)))\<rfloor>
             in filter (\<lambda>i. case pieces tor ! nat i of
                               None \<Rightarrow> False
                             | Some p \<Rightarrow> \<not> piece_done p \<and> has_priority p)
                  [currentPiece ..
                   min (currentPiece + bufferAhead) (int (length (pieces tor))) - 1])
      else [])"

section \<open>Searching: \<^verbatim>\<open>GET /api/search\<close>\<close>



















section \<open>Statements of the specification, and inputs used below\<close>

text \<open>
  The registry invariant the proofs carry along: the keys of the map are distinct (it is a
  map) and there are at most \<^const>\<open>MAX_ACTIVE_TORRENTS\<close> of them.
\<close>

definition registry_ok :: "server \<Rightarrow> bool" where
  "registry_ok s \<longleftrightarrow>
     distinct (map fst (activeTorrents s)) \<and> length (activeTorrents s) \<le> MAX_ACTIVE_TORRENTS"

text \<open>
  The victims the specification's eviction policy allows when \<open>newMagnetUrl\<close> is requested:
  among the live sessions other than the requested key, those with the smallest
  \<open>lastAccessed\<close>, and among these the smallest \<open>createdAt\<close>.
\<close>

definition spec_older :: "tdata \<Rightarrow> tdata \<Rightarrow> bool" where
  "spec_older a b \<longleftrightarrow>
     lastAccessed a < lastAccessed b \<or>
     (lastAccessed a = lastAccessed b \<and> createdAt a \<le> createdAt b)"

definition spec_victims :: "string \<Rightarrow> registry \<Rightarrow> registry" where
  "spec_victims newMagnetUrl m =
     (let candidates = filter (\<lambda>e. fst e \<noteq> newMagnetUrl \<and> \<not> destroyed (torrent (snd e))) m
      in filter (\<lambda>e. list_all (\<lambda>e'. spec_older (snd e) (snd e')) candidates) candidates)"

text \<open>
  The specification's test for an unsatisfiable range: after clamping the end to the last
  byte, the start is beyond the end, or negative, or at or beyond the length.
\<close>

definition spec_range_not_satisfiable :: "int \<Rightarrow> int \<Rightarrow> int \<Rightarrow> bool" where
  "spec_range_not_satisfiable start end0 len \<longleftrightarrow>
     (let end' = (if end0 \<ge> len then len - 1 else end0)
      in start > end' \<or> start < 0 \<or> start \<ge> len)"

text \<open>
  The specification's priority window of a progress tick: every index from the current piece
  up to \<^const>\<open>bufferAhead\<close> further, clamped to the pieces there are, that the engine can
  resolve. The current piece is the floor of the product as the handler computes it.
\<close>

definition spec_window :: "torrent \<Rightarrow> int list" where
  "spec_window tor =
     (let currentPiece = \<lfloor>fl (progress_read tor * of_nat (length (pieces tor)))\<rfloor>
      in filter (\<lambda>i. pieces tor ! nat i \<noteq> None)
           [max 0 currentPiece ..
            min (currentPiece + bufferAhead) (int (length (pieces tor))) - 1])"

text \<open>Torrents, sessions and requests of the examples.\<close>

definition movie :: tfile where
  "movie = \<lparr> name = ''movie.mp4'', flength = 1000 \<rparr>"

definition loading :: "string \<Rightarrow> torrent" where
  "loading h = \<lparr> infoHash = h, destroyed = False, ready = False, files = [],
                 pieces = [], progress = 0 \<rparr>"

definition playable :: "string \<Rightarrow> torrent" where
  "playable h = \<lparr> infoHash = h, destroyed = False, ready = True, files = [movie],
                  pieces = [], progress = 0 \<rparr>"

definition start_at :: "string \<Rightarrow> int \<Rightarrow> torrent \<Rightarrow> event" where
  "start_at magnetUrl now tor = Start_session magnetUrl now now now (Some tor)"

text \<open>Three sessions A, B and C, last accessed at 0, 5 and 10.\<close>

definition abc_events :: "event list" where
  "abc_events =
     [start_at ''magnet:A'' 0 (loading ''a''), start_at ''magnet:B'' 5 (loading ''b''),
      start_at ''magnet:C'' 10 (loading ''c'')]"

text \<open>
  A is started at 0 and B at 1; A is requested again at 2 while its metadata is still
  loading; B is polled at 2; C is started at 3. A and B are then both last accessed at 2, A
  stands first in the map, and B was created first.
\<close>

definition tie_events :: "event list" where
  "tie_events =
     [start_at ''magnet:A'' 0 (loading ''a''), start_at ''magnet:B'' 1 (loading ''b''),
      start_at ''magnet:A'' 2 (loading ''a''), Poll_info [loading ''a'', loading ''b''] ''b'' 2,
      start_at ''magnet:C'' 3 (loading ''c'')]"

text \<open>
  A torrent of so many pieces, none of them done, at a given progress; with 1000 pieces at
  \<^verbatim>\<open>0.005\<close>, and at one half.
\<close>

definition tick :: "rat \<Rightarrow> nat \<Rightarrow> torrent" where
  "tick p n = \<lparr> infoHash = ''a'', destroyed = False, ready = True, files = [movie],
                pieces = replicate n (Some \<lparr> piece_done = False, has_priority = True \<rparr>),
                progress = p \<rparr>"

definition early_tick :: torrent where
  "early_tick = tick (1 / 200) 1000"

definition mid_tick :: torrent where
  "mid_tick = tick (1 / 2) 1000"





text \<open>A file whose name holds a space and two double quotes: \<^verbatim>\<open>a "b".mp4\<close>.\<close>

definition quoted_movie :: tfile where
  "quoted_movie = \<lparr> name = ''a '' @ [CHR 0x22] @ ''b'' @ [CHR 0x22] @ ''.mp4'', flength = 1000 \<rparr>"

definition quoted_torrent :: torrent where
  "quoted_torrent = \<lparr> infoHash = ''q'', destroyed = False, ready = True,
                      files = [quoted_movie], pieces = [], progress = 0 \<rparr>"

section \<open>The registry keeps its bound\<close>

subsection \<open>Association lists as maps\<close>

lemma length_update:
  "length (AList.update k v al) = (if k \<in> fst ` set al then length al else Suc (length al))"
  by (induction al) auto

lemma update_absent: "map_of al k = None \<Longrightarrow> AList.update k v al = al @ [(k, v)]"
  by (induction al) (auto split: if_splits)

lemma update_present_keys:
  "map_of al k = Some v \<Longrightarrow> map fst (AList.update k v' al) = map fst al"
  by (induction al) (auto split: if_splits)

lemma delete_filter: "AList.delete k al = filter (\<lambda>e. fst e \<noteq> k) al"
  by (induction al) auto

lemma touch_keys: "map fst (touch h now al) = map fst al"
  by (induction h now al rule: touch.induct) auto

lemma filter_keys_length:
  assumes "distinct (map fst al)" and "finite K" and "K \<subseteq> fst ` set al"
  shows "length (filter (\<lambda>e. fst e \<notin> K) al) + card K = length al"
  using assms
proof (induction al arbitrary: K)
  case Nil
  then show ?case by simp
next
  case (Cons e al)
  show ?case
  proof (cases "fst e \<in> K")
    case True
    let ?K = "K - {fst e}"
    have sub: "?K \<subseteq> fst ` set al" using Cons.prems by auto
    have "\<forall>x\<in>set al. fst x \<noteq> fst e" using Cons.prems(1) by (auto simp: image_iff)
    then have eq: "filter (\<lambda>x. fst x \<notin> K) al = filter (\<lambda>x. fst x \<notin> ?K) al"
      by (auto intro!: filter_cong)
    have f: "filter (\<lambda>x. fst x \<notin> K) (e # al) = filter (\<lambda>x. fst x \<notin> K) al"
      using True by simp
    have l: "length (filter (\<lambda>x. fst x \<notin> ?K) al) + card ?K = length al"
      using Cons.IH[of ?K] Cons.prems sub by simp
    have c: "card K = Suc (card ?K)"
      using Cons.prems(2) True by (rule card.remove)
    show ?thesis unfolding f eq c using l by simp
  next
    case False
    have sub: "K \<subseteq> fst ` set al" using Cons.prems False by auto
    have "length (filter (\<lambda>x. fst x \<notin> K) al) + card K = length al"
      using Cons.IH[of K] Cons.prems sub by simp
    then show ?thesis using False by simp
  qed
qed

subsection \<open>The two destroying loops\<close>

lemma evict_entries:
  "activeTorrents
     (fold (\<lambda>(magnetUrl, data) s'.
              if magnetUrl \<noteq> u then destroyTorrent magnetUrl data s' else s') vs s) =
   filter (\<lambda>e. fst e \<notin> fst ` set vs - {u}) (activeTorrents s)"
proof (induction vs arbitrary: s)
  case Nil
  show ?case by simp
next
  case (Cons v vs)
  obtain k d where v: "v = (k, d)" by (cases v)
  show ?case
  proof (cases "k = u")
    case True
    with v Cons show ?thesis by auto
  next
    case False
    have "filter (\<lambda>e. fst e \<notin> fst ` set vs - {u}) (filter (\<lambda>e. fst e \<noteq> k) (activeTorrents s))
        = filter (\<lambda>e. fst e \<notin> fst ` set (v # vs) - {u}) (activeTorrents s)"
      using False v by (auto intro!: filter_cong)
    with False v Cons show ?thesis
      by (simp add: destroyTorrent_def delete_filter)
  qed
qed

lemma sweep_entries:
  "activeTorrents
     (fold (\<lambda>(magnetUrl, data) s'.
              if now - lastAccessed data > TORRENT_TIMEOUT
              then destroyTorrent magnetUrl data s' else s') vs s) =
   filter (\<lambda>e. fst e \<notin> fst ` {x \<in> set vs. now - lastAccessed (snd x) > TORRENT_TIMEOUT})
     (activeTorrents s)"
proof (induction vs arbitrary: s)
  case Nil
  show ?case by simp
next
  case (Cons v vs)
  obtain k d where v: "v = (k, d)" by (cases v)
  let ?K = "fst ` {x \<in> set vs. now - lastAccessed (snd x) > TORRENT_TIMEOUT}"
  show ?case
  proof (cases "now - lastAccessed d > TORRENT_TIMEOUT")
    case False
    then have "fst ` {x \<in> set (v # vs). now - lastAccessed (snd x) > TORRENT_TIMEOUT} = ?K"
      using v by auto
    with False v Cons show ?thesis by simp
  next
    case True
    then have "fst ` {x \<in> set (v # vs). now - lastAccessed (snd x) > TORRENT_TIMEOUT}
               = insert k ?K"
      using v by force
    moreover have
      "filter (\<lambda>e. fst e \<notin> ?K) (filter (\<lambda>e. fst e \<noteq> k) (activeTorrents s))
        = filter (\<lambda>e. fst e \<notin> insert k ?K) (activeTorrents s)"
      by (auto intro!: filter_cong)
    ultimately show ?thesis using True v Cons by (simp add: destroyTorrent_def delete_filter)
  qed
qed

lemma distinct_keys_sorted:
  assumes "distinct (map fst al)"
  shows "distinct (map fst (take n (sortedTorrents al)))"
proof -
  have "distinct (map fst (sortedTorrents al))"
    using assms by (simp add: sortedTorrents_def distinct_map)
  then have "distinct (take n (map fst (sortedTorrents al)))"
    by (rule distinct_take)
  then show ?thesis by (simp add: take_map)
qed

lemma cleanup_entries:
  "\<exists>K. activeTorrents (cleanupOldTorrents u s) =
        filter (\<lambda>e. fst e \<notin> K) (activeTorrents s)"
proof (cases "length (activeTorrents s) \<ge> MAX_ACTIVE_TORRENTS")
  case False
  then have "activeTorrents (cleanupOldTorrents u s) =
             filter (\<lambda>e. fst e \<notin> {}) (activeTorrents s)"
    by (simp add: cleanupOldTorrents_def)
  then show ?thesis ..
next
  case True
  let ?vs = "take (length (activeTorrents s) - MAX_ACTIVE_TORRENTS + 1)
               (sortedTorrents (activeTorrents s))"
  have "activeTorrents (cleanupOldTorrents u s) =
        filter (\<lambda>e. fst e \<notin> fst ` set ?vs - {u}) (activeTorrents s)"
    using True by (simp only: cleanupOldTorrents_def Let_def if_True evict_entries)
  then show ?thesis ..
qed

lemma cleanup_distinct:
  assumes "distinct (map fst (activeTorrents s))"
  shows "distinct (map fst (activeTorrents (cleanupOldTorrents u s)))"
proof -
  obtain K where
    "activeTorrents (cleanupOldTorrents u s) = filter (\<lambda>e. fst e \<notin> K) (activeTorrents s)"
    using cleanup_entries by blast
  then show ?thesis using assms by (simp add: distinct_map_filter)
qed

text \<open>
  After the cleanup there is room for the requested key: setting it leaves at most
  \<^const>\<open>MAX_ACTIVE_TORRENTS\<close> entries.
\<close>

lemma cleanup_length:
  assumes d: "distinct (map fst (activeTorrents s))"
    and l: "length (activeTorrents s) \<le> MAX_ACTIVE_TORRENTS"
  shows "length (AList.update u v (activeTorrents (cleanupOldTorrents u s)))
           \<le> MAX_ACTIVE_TORRENTS"
proof (cases "length (activeTorrents s) \<ge> MAX_ACTIVE_TORRENTS")
  case False
  then have "cleanupOldTorrents u s = s" by (simp add: cleanupOldTorrents_def)
  then show ?thesis using False by (simp add: length_update)
next
  case True
  let ?m = "activeTorrents s"
  let ?n = "length ?m - MAX_ACTIVE_TORRENTS + 1"
  let ?vs = "take ?n (sortedTorrents ?m)"
  let ?K = "fst ` set ?vs - {u}"
  have r: "activeTorrents (cleanupOldTorrents u s) = filter (\<lambda>e. fst e \<notin> ?K) ?m"
    using True by (simp add: cleanupOldTorrents_def Let_def evict_entries)
  have sub: "?K \<subseteq> fst ` set ?m"
    using set_take_subset[of ?n "sortedTorrents ?m"] by (auto simp: sortedTorrents_def)
  have len: "length (filter (\<lambda>e. fst e \<notin> ?K) ?m) + card ?K = length ?m"
    using filter_keys_length[OF d _ sub] by simp
  have lv: "length ?vs = ?n"
    using True by (simp add: sortedTorrents_def MAX_ACTIVE_TORRENTS_def)
  have "card (set (map fst ?vs)) = length (map fst ?vs)"
    using distinct_keys_sorted[OF d] by (rule distinct_card)
  then have "card (fst ` set ?vs) = ?n"
    using lv by simp
  then have cK: "card ?K = (if u \<in> fst ` set ?vs then ?n - 1 else ?n)"
    by (simp add: card_Diff_singleton_if)
  have keys: "u \<in> fst ` set (filter (\<lambda>e. fst e \<notin> ?K) ?m) \<longleftrightarrow> u \<in> fst ` set ?m"
    by auto
  have "u \<in> fst ` set ?vs \<Longrightarrow> u \<in> fst ` set ?m"
    using set_take_subset[of ?n "sortedTorrents ?m"] by (auto simp: sortedTorrents_def)
  then have "card ?K \<ge> ?n - 1" and "u \<notin> fst ` set ?m \<Longrightarrow> card ?K = ?n"
    using cK by auto
  then have "length (filter (\<lambda>e. fst e \<notin> ?K) ?m) \<le> MAX_ACTIVE_TORRENTS"
    and "u \<notin> fst ` set ?m \<Longrightarrow>
         Suc (length (filter (\<lambda>e. fst e \<notin> ?K) ?m)) \<le> MAX_ACTIVE_TORRENTS"
    using len True by arith+
  then have "length (AList.update u v (filter (\<lambda>e. fst e \<notin> ?K) ?m)) \<le> MAX_ACTIVE_TORRENTS"
    unfolding length_update keys by simp
  then show ?thesis using r by simp
qed

subsection \<open>Every event keeps the invariant\<close>

lemma add_torrent_ok:
  assumes "registry_ok s"
  shows "registry_ok (snd (add_torrent u t_la t_ca added s))"
proof -
  let ?c = "cleanupOldTorrents u s"
  have d: "distinct (map fst (activeTorrents s))"
    and l: "length (activeTorrents s) \<le> MAX_ACTIVE_TORRENTS"
    using assms by (simp_all add: registry_ok_def)
  have dc: "distinct (map fst (activeTorrents ?c))" using d by (rule cleanup_distinct)
  obtain K where K: "activeTorrents ?c = filter (\<lambda>e. fst e \<notin> K) (activeTorrents s)"
    using cleanup_entries by blast
  have lc: "length (activeTorrents ?c) \<le> MAX_ACTIVE_TORRENTS"
    unfolding K using l length_filter_le[of "\<lambda>e. fst e \<notin> K" "activeTorrents s"] by linarith
  show ?thesis
  proof (cases added)
    case None
    then show ?thesis using dc lc by (simp add: add_torrent_def registry_ok_def Let_def)
  next
    case (Some t)
    let ?v = "\<lparr> torrent = t, lastAccessed = t_la, createdAt = t_ca \<rparr>"
    have a: "activeTorrents (snd (add_torrent u t_la t_ca added s)) =
             AList.update u ?v (activeTorrents ?c)"
      using Some by (simp add: add_torrent_def Let_def)
    have "length (AList.update u ?v (activeTorrents ?c)) \<le> MAX_ACTIVE_TORRENTS"
      using d l by (rule cleanup_length)
    moreover have "distinct (map fst (AList.update u ?v (activeTorrents ?c)))"
      using dc by (rule distinct_update)
    ultimately show ?thesis unfolding registry_ok_def a by simp
  qed
qed

lemma post_api_stream_ok:
  assumes "registry_ok s"
  shows "registry_ok (snd (post_api_stream u t0 t_la t_ca added s))"
proof (cases "u = []")
  case True
  then show ?thesis using assms by (simp add: post_api_stream_def)
next
  case nonempty: False
  show ?thesis
  proof (cases "map_of (activeTorrents s) u")
    case None
    then show ?thesis
      using nonempty add_torrent_ok[OF assms] by (simp add: post_api_stream_def)
  next
    case (Some data)
    let ?s1 = "s\<lparr> activeTorrents :=
                   AList.update u (data\<lparr> lastAccessed := t0 \<rparr>) (activeTorrents s) \<rparr>"
    let ?s2 = "?s1\<lparr> activeTorrents := AList.delete u (activeTorrents ?s1) \<rparr>"
    have k1: "map fst (activeTorrents ?s1) = map fst (activeTorrents s)"
      using update_present_keys[OF Some] by simp
    then have "length (activeTorrents ?s1) = length (activeTorrents s)"
      by (metis length_map)
    then have ok1: "registry_ok ?s1" using assms k1 by (simp add: registry_ok_def)
    have "distinct (map fst (activeTorrents ?s2))"
      using ok1 by (simp add: registry_ok_def distinct_delete)
    moreover have "length (activeTorrents ?s2) \<le> length (activeTorrents ?s1)"
      by (simp add: length_delete_le)
    ultimately have ok2: "registry_ok ?s2" using ok1 by (simp add: registry_ok_def)
    show ?thesis
      using nonempty Some ok1 add_torrent_ok[OF ok1] add_torrent_ok[OF ok2]
      by (simp add: post_api_stream_def Let_def split: option.split)
  qed
qed

lemma sweep_ok:
  assumes "registry_ok s"
  shows "registry_ok (sweep now s)"
proof -
  obtain K where K: "activeTorrents (sweep now s) = filter (\<lambda>e. fst e \<notin> K) (activeTorrents s)"
    unfolding sweep_def using sweep_entries by blast
  have "length (activeTorrents (sweep now s)) \<le> length (activeTorrents s)"
    unfolding K by (rule length_filter_le)
  moreover have "distinct (map fst (activeTorrents (sweep now s)))"
    unfolding K using assms by (simp add: registry_ok_def distinct_map_filter)
  ultimately show ?thesis using assms by (simp add: registry_ok_def)
qed

lemma touch_ok:
  assumes "registry_ok s"
  shows "registry_ok (s\<lparr> activeTorrents := touch h now (activeTorrents s) \<rparr>)"
proof -
  have k: "map fst (touch h now (activeTorrents s)) = map fst (activeTorrents s)"
    by (rule touch_keys)
  then have "length (touch h now (activeTorrents s)) = length (activeTorrents s)"
    by (metis length_map)
  then show ?thesis using assms k by (simp add: registry_ok_def)
qed

lemma engine_change_keys:
  "map fst (map (\<lambda>(k, data). if k = u then (k, data\<lparr> torrent := t \<rparr>) else (k, data)) al)
   = map fst al"
  by (induction al) auto

lemma step_ok:
  assumes "registry_ok s"
  shows "registry_ok (step ev s)"
proof (cases ev)
  case (Start_session u t0 t1 t2 added)
  then show ?thesis using post_api_stream_ok[OF assms] by simp
next
  case (Open_stream ts h r b)
  then show ?thesis using assms
    by (simp add: get_torrent_stream_def Let_def split: option.split prod.split)
next
  case (Poll_info ts h now)
  then show ?thesis using assms touch_ok[OF assms]
    by (simp add: get_torrent_info_def Let_def split: option.split)
next
  case (Open_download ts h r now)
  then show ?thesis using assms touch_ok[OF assms]
    by (simp add: get_torrent_download_def Let_def split: option.split prod.split)
next
  case (Sweep now)
  then show ?thesis using sweep_ok[OF assms] by simp
next
  case (Engine_change u t)
  let ?m = "map (\<lambda>(k, data). if k = u then (k, data\<lparr> torrent := t \<rparr>) else (k, data))
              (activeTorrents s)"
  have "distinct (map fst ?m)"
    unfolding engine_change_keys using assms by (simp add: registry_ok_def)
  moreover have "length ?m = length (activeTorrents s)" by simp
  ultimately show ?thesis using Engine_change assms by (simp add: registry_ok_def)
qed

lemma run_ok: "registry_ok s \<Longrightarrow> registry_ok (run evs s)"
  unfolding run_def by (induction evs arbitrary: s) (simp_all add: step_ok)

lemma server0_ok: "registry_ok server0"
  by (simp add: registry_ok_def server0_def)



subsection \<open>The victim of the cleanup\<close>

lemma hd_sorted_mem: "al \<noteq> [] \<Longrightarrow> hd (sortedTorrents al) \<in> set al"
proof -
  assume "al \<noteq> []"
  then have "sortedTorrents al \<noteq> []"
    unfolding sortedTorrents_def by (metis length_sort length_0_conv)
  then have "hd (sortedTorrents al) \<in> set (sortedTorrents al)" by (rule hd_in_set)
  then show ?thesis by (simp add: sortedTorrents_def)
qed

lemma hd_sorted_least:
  assumes "e \<in> set al"
  shows "lastAccessed (snd (hd (sortedTorrents al))) \<le> lastAccessed (snd e)"
proof -
  let ?f = "\<lambda>e. lastAccessed (snd e)"
  have ne: "sortedTorrents al \<noteq> []"
    using assms unfolding sortedTorrents_def by (metis empty_iff empty_set set_sort)
  then obtain h t where ht: "sortedTorrents al = h # t" by (cases "sortedTorrents al") auto
  have "sorted (map ?f (sortedTorrents al))"
    unfolding sortedTorrents_def by (rule sorted_sort_key)
  then have "\<forall>y\<in>set t. ?f h \<le> ?f y" unfolding ht by simp
  moreover have "e \<in> set (h # t)" using assms ht[symmetric] by (simp add: sortedTorrents_def)
  ultimately show ?thesis unfolding ht by auto
qed

text \<open>Stability: the head of the sorted array is the first entry of the map with its timestamp.\<close>

lemma hd_sorted_split:
  assumes "al \<noteq> []"
  shows "\<exists>pre post. al = pre @ hd (sortedTorrents al) # post \<and>
           (\<forall>e\<in>set pre. lastAccessed (snd (hd (sortedTorrents al))) < lastAccessed (snd e)) \<and>
           (\<forall>e\<in>set post. lastAccessed (snd (hd (sortedTorrents al))) \<le> lastAccessed (snd e))"
proof -
  let ?f = "\<lambda>e. lastAccessed (snd e)"
  let ?v = "hd (sortedTorrents al)"
  have ne: "sortedTorrents al \<noteq> []"
    using assms unfolding sortedTorrents_def by (metis length_sort length_0_conv)
  then obtain t where ht: "sortedTorrents al = ?v # t" by (cases "sortedTorrents al") auto
  have "filter (\<lambda>y. ?f y = ?f ?v) (sortedTorrents al) = filter (\<lambda>y. ?f y = ?f ?v) al"
    unfolding sortedTorrents_def by (rule sort_key_stable)
  then have "filter (\<lambda>y. ?f y = ?f ?v) al = ?v # filter (\<lambda>y. ?f y = ?f ?v) t"
    by (subst (asm) ht) simp
  then obtain pre post where al: "al = pre @ ?v # post"
      and pre: "\<forall>u\<in>set pre. \<not> ?f u = ?f ?v"
    unfolding filter_eq_Cons_iff by blast
  have "\<forall>e\<in>set pre. ?f ?v < ?f e"
  proof
    fix e assume e: "e \<in> set pre"
    then have "e \<in> set al" by (subst al) simp
    then have "?f ?v \<le> ?f e" by (rule hd_sorted_least)
    moreover have "?f e \<noteq> ?f ?v" using pre e by blast
    ultimately show "?f ?v < ?f e" by simp
  qed
  moreover have "\<forall>e\<in>set post. ?f ?v \<le> ?f e"
  proof
    fix e assume e: "e \<in> set post"
    then have "e \<in> set al" by (subst al) simp
    then show "?f ?v \<le> ?f e" by (rule hd_sorted_least)
  qed
  ultimately show ?thesis using al by blast
qed

lemma take1_hd: "xs \<noteq> [] \<Longrightarrow> take (Suc 0) xs = [hd xs]"
  by (cases xs) simp_all

lemma cleanup_at_capacity:
  assumes len: "length (activeTorrents s) = MAX_ACTIVE_TORRENTS"
    and new: "map_of (activeTorrents s) u = None"
  shows "cleanupOldTorrents u s =
         destroyTorrent (fst (hd (sortedTorrents (activeTorrents s))))
           (snd (hd (sortedTorrents (activeTorrents s)))) s"
proof -
  let ?v = "hd (sortedTorrents (activeTorrents s))"
  have ne: "activeTorrents s \<noteq> []" using len by (auto simp: MAX_ACTIVE_TORRENTS_def)
  then have sne: "sortedTorrents (activeTorrents s) \<noteq> []"
    unfolding sortedTorrents_def by (metis length_sort length_0_conv)
  have "?v \<in> set (activeTorrents s)" using ne by (rule hd_sorted_mem)
  then have "fst ?v \<in> fst ` set (activeTorrents s)" by (rule imageI)
  moreover have "u \<notin> fst ` set (activeTorrents s)" using new by (simp add: map_of_eq_None_iff)
  ultimately have neq: "fst ?v \<noteq> u" by metis
  have "take (length (activeTorrents s) - MAX_ACTIVE_TORRENTS + 1) (sortedTorrents (activeTorrents s))
        = [?v]"
    using len take1_hd[OF sne] by simp
  then show ?thesis
    using len neq by (simp add: cleanupOldTorrents_def Let_def case_prod_beta)
qed

lemma delete_split:
  assumes "distinct (map fst (pre @ v # post))"
  shows "AList.delete (fst v) (pre @ v # post) = pre @ post"
proof -
  have "\<forall>e\<in>set pre. fst e \<noteq> fst v" and "\<forall>e\<in>set post. fst e \<noteq> fst v"
    using assms by (auto simp: image_iff)
  then show ?thesis by (simp add: delete_filter)
qed


lemma add_at_capacity:
  assumes ok: "registry_ok s"
    and len: "length (activeTorrents s) = MAX_ACTIVE_TORRENTS"
    and new: "map_of (activeTorrents s) u = None"
    and nonempty: "u \<noteq> []"
  shows "post_api_stream u t_touch t_la t_ca (Some tor) s =
           (Added (infoHash tor),
            \<lparr> activeTorrents =
                 AList.delete (fst (hd (sortedTorrents (activeTorrents s)))) (activeTorrents s) @
                 [(u, \<lparr> torrent = tor, lastAccessed = t_la, createdAt = t_ca \<rparr>)],
               engine_log =
                 engine_log s @
                 (if destroyed (torrent (snd (hd (sortedTorrents (activeTorrents s))))) then []
                  else [Destroy (infoHash (torrent (snd (hd (sortedTorrents (activeTorrents s))))))]) @
                 [Add u] \<rparr>)"
proof -
  let ?v = "hd (sortedTorrents (activeTorrents s))"
  have c: "cleanupOldTorrents u s = destroyTorrent (fst ?v) (snd ?v) s"
    using len new by (rule cleanup_at_capacity)
  have "map_of (AList.delete (fst ?v) (activeTorrents s)) u = None"
    using new by (simp add: delete_conv')
  then have upd: "AList.update u x (AList.delete (fst ?v) (activeTorrents s)) =
                  AList.delete (fst ?v) (activeTorrents s) @ [(u, x)]" for x
    by (rule update_absent)
  show ?thesis
    using new nonempty by (simp add: post_api_stream_def add_torrent_def c destroyTorrent_def upd)
qed

lemma delete_one:
  assumes "distinct (map fst al)" and "v \<in> set al"
  shows "Suc (length (AList.delete (fst v) al)) = length al"
proof -
  have "{fst v} \<subseteq> fst ` set al" using assms(2) by auto
  then have "length (filter (\<lambda>e. fst e \<notin> {fst v}) al) + card {fst v} = length al"
    using filter_keys_length[OF assms(1), of "{fst v}"] by simp
  then show ?thesis by (simp add: delete_filter)
qed

section \<open>Claims about the session registry\<close>

text \<open>
  C1. After every event of every run that starts with the empty registry (session starts,
  polls, stream and download opens, sweeps and changes made by the engine, in any order), the
  registry holds at most \<^const>\<open>MAX_ACTIVE_TORRENTS\<close> entries, so at most that many live sessions.
  When the registry is at capacity and a key that is not in it is requested, the handler evicts
  exactly one entry, one whose \<open>lastAccessed\<close> is smallest, and does so before it calls
  \<^verbatim>\<open>client.add\<close> and inserts the new session: the engine log shows the destroy call before
  the add call, and the new entry is appended to the remaining ones.
\<close>

theorem capacity_bound:
  "let s = run evs server0; victim = hd (sortedTorrents (activeTorrents s)) in
     length (live s) \<le> MAX_ACTIVE_TORRENTS \<and>
     length (activeTorrents s) \<le> MAX_ACTIVE_TORRENTS \<and>
     (length (activeTorrents s) = MAX_ACTIVE_TORRENTS \<and> magnetUrl \<noteq> [] \<and>
      map_of (activeTorrents s) magnetUrl = None \<longrightarrow>
        post_api_stream magnetUrl t_touch t_la t_ca (Some tor) s =
          (Added (infoHash tor),
           \<lparr> activeTorrents =
                AList.delete (fst victim) (activeTorrents s) @
                [(magnetUrl, \<lparr> torrent = tor, lastAccessed = t_la, createdAt = t_ca \<rparr>)],
              engine_log =
                engine_log s @
                (if destroyed (torrent (snd victim)) then []
                 else [Destroy (infoHash (torrent (snd victim)))]) @
                [Add magnetUrl] \<rparr>) \<and>
        victim \<in> set (activeTorrents s) \<and>
        (\<forall>e\<in>set (activeTorrents s). lastAccessed (snd victim) \<le> lastAccessed (snd e)) \<and>
        Suc (length (AList.delete (fst victim) (activeTorrents s))) = MAX_ACTIVE_TORRENTS)"
proof -
  let ?s = "run evs server0"
  let ?v = "hd (sortedTorrents (activeTorrents ?s))"
  have ok: "registry_ok ?s" using server0_ok by (rule run_ok)
  then have bound: "length (activeTorrents ?s) \<le> MAX_ACTIVE_TORRENTS"
    and d: "distinct (map fst (activeTorrents ?s))"
    by (simp_all add: registry_ok_def)
  have "length (live ?s) \<le> length (activeTorrents ?s)"
    unfolding live_def by (rule length_filter_le)
  then have lv: "length (live ?s) \<le> MAX_ACTIVE_TORRENTS" using bound by linarith
  have evict: "post_api_stream magnetUrl t_touch t_la t_ca (Some tor) ?s =
          (Added (infoHash tor),
           \<lparr> activeTorrents =
                AList.delete (fst ?v) (activeTorrents ?s) @
                [(magnetUrl, \<lparr> torrent = tor, lastAccessed = t_la, createdAt = t_ca \<rparr>)],
              engine_log =
                engine_log ?s @
                (if destroyed (torrent (snd ?v)) then []
                 else [Destroy (infoHash (torrent (snd ?v)))]) @
                [Add magnetUrl] \<rparr>) \<and>
        ?v \<in> set (activeTorrents ?s) \<and>
        (\<forall>e\<in>set (activeTorrents ?s). lastAccessed (snd ?v) \<le> lastAccessed (snd e)) \<and>
        Suc (length (AList.delete (fst ?v) (activeTorrents ?s))) = MAX_ACTIVE_TORRENTS"
    if len: "length (activeTorrents ?s) = MAX_ACTIVE_TORRENTS"
      and nonempty: "magnetUrl \<noteq> []"
      and new: "map_of (activeTorrents ?s) magnetUrl = None"
  proof -
    have ne: "activeTorrents ?s \<noteq> []" using len by (auto simp: MAX_ACTIVE_TORRENTS_def)
    have mem: "?v \<in> set (activeTorrents ?s)" using ne by (rule hd_sorted_mem)
    have "Suc (length (AList.delete (fst ?v) (activeTorrents ?s))) = length (activeTorrents ?s)"
      using d mem by (rule delete_one)
    then show ?thesis
      using add_at_capacity[OF ok len new nonempty] mem hd_sorted_least len by auto
  qed
  show ?thesis unfolding Let_def using lv bound evict by blast
qed

theorem capacity_bound_witness:
  "length (activeTorrents (run abc_events server0)) = MAX_ACTIVE_TORRENTS \<and>
   map_of (activeTorrents (run abc_events server0)) ''magnet:D'' = None \<and>
   length (live (run abc_events server0)) \<le> MAX_ACTIVE_TORRENTS \<and>
   fst (post_api_stream ''magnet:D'' 11 12 13 (Some (loading ''d'')) (run abc_events server0))
     = Added ''d'' \<and>
   Suc (length (AList.delete (fst (hd (sortedTorrents (activeTorrents (run abc_events server0)))))
          (activeTorrents (run abc_events server0)))) = MAX_ACTIVE_TORRENTS"
proof -
  have len: "length (activeTorrents (run abc_events server0)) = MAX_ACTIVE_TORRENTS"
    by code_simp
  have new: "map_of (activeTorrents (run abc_events server0)) ''magnet:D'' = None"
    by code_simp
  have h: "infoHash (loading ''d'') = ''d''" by (simp add: loading_def)
  show ?thesis
    using capacity_bound[of abc_events "''magnet:D''" 11 12 13 "loading ''d''"] len new h
    unfolding Let_def by simp
qed

text \<open>
  C6, as stated, fails on a tie. After the run \<^const>\<open>tie_events\<close> the registry is full, A and B
  were both last accessed at 2, and B has the smaller \<open>createdAt\<close>: the specification's policy
  picks B. The cleanup for a new key D removes A, the first of the two in the map, and keeps B.
\<close>

theorem lru_tie_counterexample:
  "map (\<lambda>e. (fst e, lastAccessed (snd e), createdAt (snd e))) (activeTorrents (run tie_events server0))
     = [(''magnet:A'', 2, 2), (''magnet:B'', 2, 1), (''magnet:C'', 3, 3)] \<and>
   length (live (run tie_events server0)) = MAX_ACTIVE_TORRENTS \<and>
   map fst (spec_victims ''magnet:D'' (activeTorrents (run tie_events server0))) = [''magnet:B''] \<and>
   map fst (activeTorrents (cleanupOldTorrents ''magnet:D'' (run tie_events server0)))
     = [''magnet:B'', ''magnet:C'']"
  by code_simp

text \<open>
  C6, amended. When the registry is at capacity and a key that is not in it is requested, the
  cleanup evicts exactly one entry: the one with the smallest \<open>lastAccessed\<close>, and among
  entries with that same timestamp the one that stands first in the map (insertion order);
  \<open>createdAt\<close> is not consulted. Every entry before the victim is strictly more recent, every
  entry after it at least as recent, and the other entries stay in their order. With A, B and C
  last accessed at 0, 5 and 10 and a maximum of 3, requesting D evicts A and only A.
\<close>

theorem lru_victim:
  "(let s = run evs server0 in
      length (activeTorrents s) = MAX_ACTIVE_TORRENTS \<and>
      map_of (activeTorrents s) newMagnetUrl = None \<longrightarrow>
      (\<exists>pre victim post.
         activeTorrents s = pre @ victim # post \<and>
         (\<forall>e\<in>set pre. lastAccessed (snd victim) < lastAccessed (snd e)) \<and>
         (\<forall>e\<in>set post. lastAccessed (snd victim) \<le> lastAccessed (snd e)) \<and>
         activeTorrents (cleanupOldTorrents newMagnetUrl s) = pre @ post \<and>
         engine_log (cleanupOldTorrents newMagnetUrl s) =
           engine_log s @
           (if destroyed (torrent (snd victim)) then []
            else [Destroy (infoHash (torrent (snd victim)))]))) \<and>
   map (\<lambda>e. (fst e, lastAccessed (snd e))) (activeTorrents (run abc_events server0))
     = [(''magnet:A'', 0), (''magnet:B'', 5), (''magnet:C'', 10)] \<and>
   map fst (activeTorrents (cleanupOldTorrents ''magnet:D'' (run abc_events server0)))
     = [''magnet:B'', ''magnet:C''] \<and>
   engine_log (cleanupOldTorrents ''magnet:D'' (run abc_events server0))
     = engine_log (run abc_events server0) @ [Destroy ''a'']"
proof -
  let ?s = "run evs server0"
  let ?v = "hd (sortedTorrents (activeTorrents ?s))"
  have general: "\<exists>pre victim post.
         activeTorrents ?s = pre @ victim # post \<and>
         (\<forall>e\<in>set pre. lastAccessed (snd victim) < lastAccessed (snd e)) \<and>
         (\<forall>e\<in>set post. lastAccessed (snd victim) \<le> lastAccessed (snd e)) \<and>
         activeTorrents (cleanupOldTorrents newMagnetUrl ?s) = pre @ post \<and>
         engine_log (cleanupOldTorrents newMagnetUrl ?s) =
           engine_log ?s @
           (if destroyed (torrent (snd victim)) then []
            else [Destroy (infoHash (torrent (snd victim)))])"
    if len: "length (activeTorrents ?s) = MAX_ACTIVE_TORRENTS"
      and new: "map_of (activeTorrents ?s) newMagnetUrl = None"
  proof -
    have "registry_ok ?s" using server0_ok by (rule run_ok)
    then have d: "distinct (map fst (activeTorrents ?s))" by (simp add: registry_ok_def)
    have ne: "activeTorrents ?s \<noteq> []" using len by (auto simp: MAX_ACTIVE_TORRENTS_def)
    define v where "v = hd (sortedTorrents (activeTorrents ?s))"
    obtain pre post where split: "activeTorrents ?s = pre @ v # post"
      and pre: "\<forall>e\<in>set pre. lastAccessed (snd v) < lastAccessed (snd e)"
      and post: "\<forall>e\<in>set post. lastAccessed (snd v) \<le> lastAccessed (snd e)"
      using hd_sorted_split[OF ne] unfolding v_def by blast
    have c: "cleanupOldTorrents newMagnetUrl ?s = destroyTorrent (fst v) (snd v) ?s"
      unfolding v_def using len new by (rule cleanup_at_capacity)
    have "distinct (map fst (pre @ v # post))" using d split by simp
    then have "AList.delete (fst v) (pre @ v # post) = pre @ post"
      by (rule delete_split)
    then have "AList.delete (fst v) (activeTorrents ?s) = pre @ post"
      using split by simp
    then have "activeTorrents (cleanupOldTorrents newMagnetUrl ?s) = pre @ post"
      unfolding c by (simp add: destroyTorrent_def)
    moreover have "engine_log (cleanupOldTorrents newMagnetUrl ?s) =
           engine_log ?s @
           (if destroyed (torrent (snd v)) then []
            else [Destroy (infoHash (torrent (snd v)))])"
      unfolding c by (simp add: destroyTorrent_def)
    ultimately show ?thesis using split pre post by blast
  qed
  have e1: "map (\<lambda>e. (fst e, lastAccessed (snd e))) (activeTorrents (run abc_events server0))
     = [(''magnet:A'', 0), (''magnet:B'', 5), (''magnet:C'', 10)]"
    by code_simp
  have e2: "map fst (activeTorrents (cleanupOldTorrents ''magnet:D'' (run abc_events server0)))
     = [''magnet:B'', ''magnet:C'']"
    by code_simp
  have e3: "engine_log (cleanupOldTorrents ''magnet:D'' (run abc_events server0))
     = engine_log (run abc_events server0) @ [Destroy ''a'']"
    by code_simp
  show ?thesis unfolding Let_def using general e1 e2 e3 by blast
qed

theorem lru_victim_witness:
  "length (activeTorrents (run tie_events server0)) = MAX_ACTIVE_TORRENTS \<and>
   map_of (activeTorrents (run tie_events server0)) ''magnet:D'' = None \<and>
   (\<exists>pre victim post.
         activeTorrents (run tie_events server0) = pre @ victim # post \<and>
         activeTorrents (cleanupOldTorrents ''magnet:D'' (run tie_events server0)) = pre @ post)"
proof -
  have len: "length (activeTorrents (run tie_events server0)) = MAX_ACTIVE_TORRENTS"
    by code_simp
  have new: "map_of (activeTorrents (run tie_events server0)) ''magnet:D'' = None"
    by code_simp
  show ?thesis
    using lru_victim[of tie_events "''magnet:D''", unfolded Let_def] len new by blast
qed

text \<open>
  C2: two session starts for one locator are to reuse one session, with a single call of
  \<^verbatim>\<open>client.add\<close>. The handler returns the existing session only when a video file is already
  found among the torrent's files. A second request that arrives while the first session is
  live but its metadata is still loading falls through to the cleanup and to a second
  \<^verbatim>\<open>client.add\<close> for the same locator, and the entry is overwritten. When the video file is
  known the same request is answered from the existing session with no further call.
\<close>

theorem same_locator_added_twice:
  "live (run [start_at ''magnet:A'' 0 (loading ''a'')] server0) =
     [(''magnet:A'', \<lparr> torrent = loading ''a'', lastAccessed = 0, createdAt = 0 \<rparr>)] \<and>
   post_api_stream ''magnet:A'' 1 1 1 (Some (loading ''a''))
       (run [start_at ''magnet:A'' 0 (loading ''a'')] server0) =
     (Added ''a'',
      \<lparr> activeTorrents =
           [(''magnet:A'', \<lparr> torrent = loading ''a'', lastAccessed = 1, createdAt = 1 \<rparr>)],
         engine_log = [Add ''magnet:A'', Add ''magnet:A''] \<rparr>) \<and>
   post_api_stream ''magnet:A'' 1 1 1 (Some (playable ''a''))
       (run [start_at ''magnet:A'' 0 (playable ''a'')] server0) =
     (Existing ''a'' ''movie.mp4'' True,
      \<lparr> activeTorrents =
           [(''magnet:A'', \<lparr> torrent = playable ''a'', lastAccessed = 1, createdAt = 0 \<rparr>)],
         engine_log = [Add ''magnet:A''] \<rparr>)"
  by code_simp

lemma stream_state: "snd (get_torrent_stream torrents torrentId range_hdr reader_throws s) = s"
  by (simp add: get_torrent_stream_def Let_def split: option.split prod.split)

text \<open>
  C3: every stream open is to refresh the session's \<open>lastAccessed\<close>, as the status poll and
  the download do. The stream handler returns the server state as it received it, whatever the
  outcome: after a successful stream open of a session created at 0 the timestamp is still 0,
  while a poll or a download at 100 sets it to 100. So a session that is only streamed is swept
  once \<^const>\<open>TORRENT_TIMEOUT\<close> has passed since its creation, where a polled one is kept.
\<close>

theorem stream_open_leaves_timestamp:
  "snd (get_torrent_stream torrents torrentId range_hdr reader_throws s) = s \<and>
   map (\<lambda>e. lastAccessed (snd e))
     (activeTorrents (run [start_at ''magnet:A'' 0 (playable ''a''),
                           Open_stream [playable ''a''] ''a'' (Some ''bytes=0-'') False] server0))
     = [0] \<and>
   status (fst (get_torrent_stream [playable ''a''] ''a'' (Some ''bytes=0-'') False
                  (run [start_at ''magnet:A'' 0 (playable ''a'')] server0))) = 206 \<and>
   map (\<lambda>e. lastAccessed (snd e))
     (activeTorrents (run [start_at ''magnet:A'' 0 (playable ''a''),
                           Poll_info [playable ''a''] ''a'' 100] server0))
     = [100] \<and>
   map (\<lambda>e. lastAccessed (snd e))
     (activeTorrents (run [start_at ''magnet:A'' 0 (playable ''a''),
                           Open_download [playable ''a''] ''a'' None 100] server0))
     = [100] \<and>
   activeTorrents (run [start_at ''magnet:A'' 0 (playable ''a''),
                        Open_stream [playable ''a''] ''a'' (Some ''bytes=0-'') False,
                        Sweep (TORRENT_TIMEOUT + 1)] server0) = [] \<and>
   map fst (activeTorrents (run [start_at ''magnet:A'' 0 (playable ''a''),
                        Poll_info [playable ''a''] ''a'' TORRENT_TIMEOUT,
                        Sweep (TORRENT_TIMEOUT + 1)] server0)) = [''magnet:A'']"
proof -
  have "snd (get_torrent_stream torrents torrentId range_hdr reader_throws s) = s"
    by (rule stream_state)
  moreover have "map (\<lambda>e. lastAccessed (snd e))
     (activeTorrents (run [start_at ''magnet:A'' 0 (playable ''a''),
                           Open_stream [playable ''a''] ''a'' (Some ''bytes=0-'') False] server0))
     = [0]" by code_simp
  moreover have "status (fst (get_torrent_stream [playable ''a''] ''a'' (Some ''bytes=0-'') False
                  (run [start_at ''magnet:A'' 0 (playable ''a'')] server0))) = 206"
    by code_simp
  moreover have "map (\<lambda>e. lastAccessed (snd e))
     (activeTorrents (run [start_at ''magnet:A'' 0 (playable ''a''),
                           Poll_info [playable ''a''] ''a'' 100] server0))
     = [100]" by code_simp
  moreover have "map (\<lambda>e. lastAccessed (snd e))
     (activeTorrents (run [start_at ''magnet:A'' 0 (playable ''a''),
                           Open_download [playable ''a''] ''a'' None 100] server0))
     = [100]" by code_simp
  moreover have "activeTorrents (run [start_at ''magnet:A'' 0 (playable ''a''),
                        Open_stream [playable ''a''] ''a'' (Some ''bytes=0-'') False,
                        Sweep (TORRENT_TIMEOUT + 1)] server0) = []" by code_simp
  moreover have "map fst (activeTorrents (run [start_at ''magnet:A'' 0 (playable ''a''),
                        Poll_info [playable ''a''] ''a'' TORRENT_TIMEOUT,
                        Sweep (TORRENT_TIMEOUT + 1)] server0)) = [''magnet:A'']" by code_simp
  ultimately show ?thesis by blast
qed

section \<open>Claims about the streaming gateway\<close>

subsection \<open>Reading a response\<close>

lemma header_set: "map_of (headers (setHeader field val res)) = (map_of (headers res))(field \<mapsto> val)"
  by (simp add: setHeader_def update_conv')

lemma setHeader_fields [simp]:
  "status (setHeader field val res) = status res"
  "body (setHeader field val res) = body res"
  "headersSent (setHeader field val res) = headersSent res"
  by (simp_all add: setHeader_def)

lemma json_fields [simp]:
  "status (json code msg res) = code"
  "body (json code msg res) = Json_error msg"
  "headers (json code msg res) = headers res"
  by (simp_all add: json_def)

lemma parse_500: "parse_range ''bytes=500-'' 1000 = (Some 500, Some 999)"
  by code_simp

lemma parse_1200: "parse_range ''bytes=1200-1300'' 1000 = (Some 1200, Some 1300)"
  by code_simp

lemma show_500: "show_int 500 = ''500''" by code_simp
lemma show_999: "show_int 999 = ''999''" by code_simp
lemma show_1000: "show_int 1000 = ''1000''" by code_simp

text \<open>
  C4. For a session whose torrent is found, is not destroyed and has a selected file of length
  1000, a stream open with the range \<^verbatim>\<open>bytes=500-\<close> answers with status 206, the headers
  \<^verbatim>\<open>Content-Range: bytes 500-999/1000\<close> and \<^verbatim>\<open>Content-Length: 500\<close>, and pipes the bytes 500
  to 999 (the engine's reader being created); with the range \<^verbatim>\<open>bytes=1200-1300\<close> it answers
  with status 416.
\<close>

theorem range_math:
  assumes found: "find (\<lambda>t. infoHash t = torrentId) torrents = Some tor"
    and video: "find isVideo (files tor) = Some videoFile"
    and len: "flength videoFile = 1000"
    and live: "\<not> destroyed tor"
  shows "status (fst (get_torrent_stream torrents torrentId (Some ''bytes=500-'') False s)) = 206 \<and>
         map_of (headers (fst (get_torrent_stream torrents torrentId (Some ''bytes=500-'') False s)))
           ''Content-Range'' = Some ''bytes 500-999/1000'' \<and>
         map_of (headers (fst (get_torrent_stream torrents torrentId (Some ''bytes=500-'') False s)))
           ''Content-Length'' = Some ''500'' \<and>
         body (fst (get_torrent_stream torrents torrentId (Some ''bytes=500-'') False s))
           = Pipe 500 999 \<and>
         status (fst (get_torrent_stream torrents torrentId (Some ''bytes=1200-1300'')
                        reader_throws s)) = 416"
proof -
  let ?r = "fst (get_torrent_stream torrents torrentId (Some ''bytes=500-'') False s)"
  obtain res1 where r: "?r = createStream tor videoFile False 500 999
      (setHeader ''Connection'' ''keep-alive''
        (setHeader ''Content-Length'' ''500''
          (setHeader ''Content-Range'' ''bytes 500-999/1000'' (res1\<lparr> status := 206 \<rparr>))))"
    using found video len live
    by (simp add: get_torrent_stream_def Let_def parse_500 show_500 show_999 show_1000)
  have c: "createStream tor videoFile False 500 999 res = res\<lparr> body := Pipe 500 999 \<rparr>" for res
    using len live by (simp add: createStream_def)
  have "status ?r = 206" unfolding r c by simp
  moreover have "map_of (headers ?r) ''Content-Range'' = Some ''bytes 500-999/1000''"
    unfolding r c by (simp add: header_set)
  moreover have "map_of (headers ?r) ''Content-Length'' = Some ''500''"
    unfolding r c by (simp add: header_set)
  moreover have "body ?r = Pipe 500 999" unfolding r c by simp
  moreover have "status (fst (get_torrent_stream torrents torrentId (Some ''bytes=1200-1300'')
                        reader_throws s)) = 416"
    using found video len live
    by (simp add: get_torrent_stream_def Let_def parse_1200 createStream_def res0_def
        setHeader_def json_def)
  ultimately show ?thesis by blast
qed

theorem range_math_witness:
  "find (\<lambda>t. infoHash t = ''a'') [playable ''a''] = Some (playable ''a'') \<and>
   find isVideo (files (playable ''a'')) = Some movie \<and>
   flength movie = 1000 \<and> \<not> destroyed (playable ''a'') \<and>
   status (fst (get_torrent_stream [playable ''a''] ''a'' (Some ''bytes=500-'') False server0)) = 206 \<and>
   status (fst (get_torrent_stream [playable ''a''] ''a'' (Some ''bytes=1200-1300'') False server0)) = 416"
proof -
  have a: "find (\<lambda>t. infoHash t = ''a'') [playable ''a''] = Some (playable ''a'')" by code_simp
  have b: "find isVideo (files (playable ''a'')) = Some movie" by code_simp
  have c: "flength movie = 1000" by (simp add: movie_def)
  have d: "\<not> destroyed (playable ''a'')" by (simp add: playable_def)
  show ?thesis using range_math[OF a b c d, of server0 False] a b c d by blast
qed

text \<open>
  C5, as stated, fails for a negative start: for the range from -5 to 10 of a file of length
  1000 the specification's test says the range is not satisfiable, while \<^const>\<open>createStream\<close>
  sets the start to 0 and pipes the bytes 0 to 10. Written in a header, \<^verbatim>\<open>bytes=-5-10\<close>, the
  same range does not parse and the handler answers 400, not 416.
\<close>

theorem negative_start_counterexample:
  "spec_range_not_satisfiable (- 5) 10 (flength movie) \<and>
   createStream (playable ''a'') movie False (- 5) 10 (res0\<lparr> status := 206 \<rparr>)
     = res0\<lparr> status := 206, body := Pipe 0 10 \<rparr> \<and>
   status (fst (get_torrent_stream [playable ''a''] ''a'' (Some ''bytes=-5-10'') False server0))
     = 400"
proof -
  have "spec_range_not_satisfiable (- 5) 10 (flength movie)"
    by (simp add: spec_range_not_satisfiable_def movie_def)
  moreover have "createStream (playable ''a'') movie False (- 5) 10 (res0\<lparr> status := 206 \<rparr>)
     = res0\<lparr> status := 206, body := Pipe 0 10 \<rparr>"
    by (simp add: createStream_def movie_def playable_def res0_def)
  moreover have
    "status (fst (get_torrent_stream [playable ''a''] ''a'' (Some ''bytes=-5-10'') False server0))
     = 400"
    by code_simp
  ultimately show ?thesis by blast
qed

lemma split_on_nonempty: "split_on sep str \<noteq> []"
  by (induction sep str rule: split_on.induct) (auto split: list.split)

lemma split_on_hd: "sep \<notin> set (hd (split_on sep str))"
  by (induction sep str rule: split_on.induct) (auto split: list.split)

lemma parseInt_nonneg:
  assumes "CHR ''-'' \<notin> set str" and "parseInt str = Some n"
  shows "0 \<le> n"
proof -
  let ?s1 = "dropWhile isWhiteSpace str"
  let ?s2 = "if ?s1 \<noteq> [] \<and> (hd ?s1 = CHR ''-'' \<or> hd ?s1 = CHR ''+'') then tl ?s1 else ?s1"
  let ?ds = "takeWhile isDigit ?s2"
  let ?n = "int (foldl (\<lambda>acc c. 10 * acc + digit_val c) 0 ?ds)"
  have sub: "set ?s1 \<subseteq> set str" by (rule set_dropWhileD[THEN subsetI])
  have "hd ?s1 \<in> set str" if "?s1 \<noteq> []" using sub hd_in_set[OF that] by (rule subsetD)
  then have "hd ?s1 \<noteq> CHR ''-''" if "?s1 \<noteq> []" using that assms(1) by metis
  then have pos: "\<not> (?s1 \<noteq> [] \<and> hd ?s1 = CHR ''-'')" by blast
  have "parseInt str = (if ?ds = [] then None else Some ?n)"
    unfolding parseInt_def Let_def using pos by presburger
  then have "n = ?n" using assms(2) by (simp split: if_splits)
  then show ?thesis by simp
qed

lemma parse_range_start_nonneg:
  assumes "fst (parse_range range_hdr len) = Some start"
  shows "0 \<le> start"
proof -
  let ?p = "hd (split_on (CHR ''-'') (remove_first ''bytes='' range_hdr))"
  have "CHR ''-'' \<notin> set ?p" by (rule split_on_hd)
  moreover have "parseInt ?p = Some start"
    using assms by (simp add: parse_range_def Let_def)
  ultimately show ?thesis by (rule parseInt_nonneg)
qed

text \<open>
  C5, amended. On a response that has not been sent, \<^const>\<open>createStream\<close> answers 416 exactly
  when the start is beyond the end after a negative start has been raised to 0 and the end has
  been clamped to the last byte. For a start that is not negative this is the specification's
  test (a start at or beyond the length is beyond the clamped end). A negative start is
  repaired to 0, not rejected; and the start the handler parses from a \<^verbatim>\<open>Range\<close> header is
  never negative, because the header is split at its dashes (a header written with a negative
  start does not parse, and is answered 400).
\<close>

theorem range_not_satisfiable_iff:
  assumes fresh: "\<not> headersSent res" and st: "status res \<noteq> 416"
  shows "(status (createStream tor videoFile reader_throws start end0 res) = 416 \<longleftrightarrow>
            max 0 start > min end0 (flength videoFile - 1)) \<and>
         (0 \<le> start \<longrightarrow>
            (status (createStream tor videoFile reader_throws start end0 res) = 416 \<longleftrightarrow>
             spec_range_not_satisfiable start end0 (flength videoFile))) \<and>
         (start < 0 \<and> 0 \<le> min end0 (flength videoFile - 1) \<and> \<not> destroyed tor \<and>
          \<not> reader_throws \<longrightarrow>
            createStream tor videoFile reader_throws start end0 res =
              res\<lparr> body := Pipe 0 (min end0 (flength videoFile - 1)) \<rparr>) \<and>
         (fst (parse_range range_hdr (flength videoFile)) = Some start \<longrightarrow> 0 \<le> start)"
proof -
  have a: "status (createStream tor videoFile reader_throws start end0 res) = 416 \<longleftrightarrow>
            max 0 start > min end0 (flength videoFile - 1)"
    using fresh st by (auto simp: createStream_def Let_def json_def max_def min_def)
  have b: "spec_range_not_satisfiable start end0 (flength videoFile) \<longleftrightarrow>
           max 0 start > min end0 (flength videoFile - 1)" if "0 \<le> start"
    using that by (auto simp: spec_range_not_satisfiable_def Let_def max_def min_def)
  have c: "createStream tor videoFile reader_throws start end0 res =
              res\<lparr> body := Pipe 0 (min end0 (flength videoFile - 1)) \<rparr>"
    if "start < 0" "0 \<le> min end0 (flength videoFile - 1)" "\<not> destroyed tor" "\<not> reader_throws"
    using that by (auto simp: createStream_def Let_def min_def)
  show ?thesis using a b c parse_range_start_nonneg by blast
qed

theorem range_not_satisfiable_iff_witness:
  "\<not> headersSent res0 \<and> status res0 \<noteq> 416 \<and>
   status (createStream (playable ''a'') movie False 1200 1300 res0) = 416 \<and>
   createStream (playable ''a'') movie False (- 5) 10 res0 = res0\<lparr> body := Pipe 0 10 \<rparr>"
proof -
  have a: "\<not> headersSent res0" and b: "status res0 \<noteq> 416" by (simp_all add: res0_def)
  have c: "flength movie = 1000" and d: "\<not> destroyed (playable ''a'')"
    by (simp_all add: movie_def playable_def)
  show ?thesis
    using range_not_satisfiable_iff[OF a b, of "playable ''a''" movie False 1200 1300]
      range_not_satisfiable_iff[OF a b, of "playable ''a''" movie False "- 5" 10]
      a b c d by simp
qed

text \<open>
  C9. For one and the same \<^verbatim>\<open>Range\<close> header whose start or end does not parse as an integer,
  sent for a torrent that is found, is not destroyed and has a video file, the stream handler
  answers with status 400 (\<^verbatim>\<open>Invalid range\<close>) and the download handler with status 416
  (\<^verbatim>\<open>Range Not Satisfiable\<close>).
\<close>

theorem malformed_range_status:
  assumes found: "find (\<lambda>t. infoHash t = torrentId) torrents = Some tor"
    and video: "find isVideo (files tor) = Some videoFile"
    and live: "\<not> destroyed tor"
    and present: "range_hdr \<noteq> []"
    and malformed: "fst (parse_range range_hdr (flength videoFile)) = None \<or>
                    snd (parse_range range_hdr (flength videoFile)) = None"
  shows "status (fst (get_torrent_stream torrents torrentId (Some range_hdr) reader_throws s)) = 400 \<and>
         body (fst (get_torrent_stream torrents torrentId (Some range_hdr) reader_throws s))
           = Json_error ''Invalid range'' \<and>
         status (fst (get_torrent_download torrents torrentId (Some range_hdr) now s)) = 416 \<and>
         body (fst (get_torrent_download torrents torrentId (Some range_hdr) now s))
           = Json_error ''Range Not Satisfiable''"
proof -
  obtain a b where p: "parse_range range_hdr (flength videoFile) = (a, b)"
    by (cases "parse_range range_hdr (flength videoFile)")
  then have nan: "a = None \<or> b = None" using malformed by simp
  have "fst (get_torrent_stream torrents torrentId (Some range_hdr) reader_throws s) =
        json 400 ''Invalid range''
          (setHeader ''Connection'' ''keep-alive''
          (setHeader ''Expires'' ''0''
          (setHeader ''Pragma'' ''no-cache''
          (setHeader ''Cache-Control'' ''no-cache, no-store, must-revalidate''
          (setHeader ''Content-Length'' (show_int (flength videoFile))
          (setHeader ''Accept-Ranges'' ''bytes''
          (setHeader ''Content-Type'' (contentType videoFile) res0)))))))"
    using found video live present p nan
    by (auto simp: get_torrent_stream_def Let_def split: option.split)
  moreover have "fst (get_torrent_download torrents torrentId (Some range_hdr) now s) =
        json 416 ''Range Not Satisfiable''
          (setHeader ''Accept-Ranges'' ''bytes''
          (setHeader ''Content-Length'' (show_int (flength videoFile))
          (setHeader ''Content-Disposition''
             (''attachment; filename='' @ [CHR 0x22] @ sanitize (name videoFile) @ [CHR 0x22])
          (setHeader ''Content-Type'' ''application/octet-stream'' res0))))"
    using found video live present p nan
    by (auto simp: get_torrent_download_def Let_def split: option.split)
  ultimately show ?thesis by simp
qed

lemma parse_abc: "parse_range ''bytes=abc-'' 1000 = (None, Some 999)"
  by code_simp

theorem malformed_range_status_witness:
  "find (\<lambda>t. infoHash t = ''a'') [playable ''a''] = Some (playable ''a'') \<and>
   find isVideo (files (playable ''a'')) = Some movie \<and>
   \<not> destroyed (playable ''a'') \<and> ''bytes=abc-'' \<noteq> [] \<and>
   fst (parse_range ''bytes=abc-'' (flength movie)) = None \<and>
   status (fst (get_torrent_stream [playable ''a''] ''a'' (Some ''bytes=abc-'') False server0)) = 400 \<and>
   status (fst (get_torrent_download [playable ''a''] ''a'' (Some ''bytes=abc-'') 7 server0)) = 416"
proof -
  have a: "find (\<lambda>t. infoHash t = ''a'') [playable ''a''] = Some (playable ''a'')" by code_simp
  have b: "find isVideo (files (playable ''a'')) = Some movie" by code_simp
  have c: "\<not> destroyed (playable ''a'')" by (simp add: playable_def)
  have d: "''bytes=abc-'' \<noteq> []" by simp
  have e: "fst (parse_range ''bytes=abc-'' (flength movie)) = None"
    by (simp add: movie_def parse_abc)
  then have e': "fst (parse_range ''bytes=abc-'' (flength movie)) = None \<or>
                 snd (parse_range ''bytes=abc-'' (flength movie)) = None" ..
  show ?thesis
    using malformed_range_status[OF a b c d e', of False server0 7] a b c d e by blast
qed

subsection \<open>The sanitized file name\<close>

lemma sanitize_char_safe:
  "sanitize_char c \<in>
     insert (CHR ''_'')
       (set ''abcdefghijklmnopqrstuvwxyzABCDEFGHIJKLMNOPQRSTUVWXYZ0123456789.-'')"
proof (cases "c \<in> set ''abcdefghijklmnopqrstuvwxyzABCDEFGHIJKLMNOPQRSTUVWXYZ0123456789.-''")
  case True
  then have "sanitize_char c = c" by (simp only: sanitize_char_def if_True)
  then show ?thesis using True by (simp only: insertI2)
next
  case False
  then have "sanitize_char c = CHR ''_''" by (simp only: sanitize_char_def if_False)
  then show ?thesis by (simp only: insertI1)
qed

lemma safe_chars_printable:
  "\<forall>c \<in> insert (CHR ''_'')
           (set ''abcdefghijklmnopqrstuvwxyzABCDEFGHIJKLMNOPQRSTUVWXYZ0123456789.-'').
     c \<noteq> CHR 0x22 \<and> c \<noteq> CHR '' '' \<and> 32 < (of_char c :: nat) \<and> (of_char c :: nat) < 127"
  by simp


text \<open>
  C10. For every download open on a torrent that is found, is not destroyed and has a video
  file, with or without a range and whatever the range, the \<^verbatim>\<open>Content-Disposition\<close> header is
  \<^verbatim>\<open>attachment; filename="..."\<close> around the sanitized name: the name of the selected file,
  character for character, with every character outside \<^verbatim>\<open>[a-zA-Z0-9.-]\<close> replaced by an
  underscore. The sanitized name therefore holds no double quote, no space and no control
  character.
\<close>

theorem download_filename_sanitized:
  assumes found: "find (\<lambda>t. infoHash t = torrentId) torrents = Some tor"
    and video: "find isVideo (files tor) = Some videoFile"
    and live: "\<not> destroyed tor"
  shows "map_of (headers (fst (get_torrent_download torrents torrentId range_hdr now s)))
           ''Content-Disposition''
           = Some (''attachment; filename='' @ [CHR 0x22] @ sanitize (name videoFile) @ [CHR 0x22]) \<and>
         length (sanitize (name videoFile)) = length (name videoFile) \<and>
         (\<forall>i < length (name videoFile).
            sanitize (name videoFile) ! i =
              (if name videoFile ! i
                    \<in> set ''abcdefghijklmnopqrstuvwxyzABCDEFGHIJKLMNOPQRSTUVWXYZ0123456789.-''
               then name videoFile ! i else CHR ''_'')) \<and>
         (\<forall>c \<in> set (sanitize (name videoFile)).
            c \<noteq> CHR 0x22 \<and> c \<noteq> CHR '' '' \<and> 32 < (of_char c :: nat) \<and> (of_char c :: nat) < 127)"
proof -
  let ?cd = "''attachment; filename='' @ [CHR 0x22] @ sanitize (name videoFile) @ [CHR 0x22]"
  let ?res1 = "setHeader ''Accept-Ranges'' ''bytes''
               (setHeader ''Content-Length'' (show_int (flength videoFile))
               (setHeader ''Content-Disposition'' ?cd
               (setHeader ''Content-Type'' ''application/octet-stream'' res0)))"
  have a: "map_of (headers (fst (get_torrent_download torrents torrentId range_hdr now s)))
           ''Content-Disposition'' = Some ?cd"
  proof (cases "range_hdr \<noteq> None \<and> range_hdr \<noteq> Some []")
    case False
    then have eq: "fst (get_torrent_download torrents torrentId range_hdr now s) =
                   ?res1\<lparr> body := Pipe_all \<rparr>"
      using found video live by (auto simp: get_torrent_download_def Let_def)
    show ?thesis unfolding eq by (simp add: header_set)
  next
    case True
    obtain a b where p: "parse_range (the range_hdr) (flength videoFile) = (a, b)"
      by (cases "parse_range (the range_hdr) (flength videoFile)")
    show ?thesis
    proof (cases "\<exists>st en. a = Some st \<and> b = Some en \<and> \<not> st > en")
      case False
      then have eq: "fst (get_torrent_download torrents torrentId range_hdr now s) =
                 json 416 ''Range Not Satisfiable'' ?res1"
        using True found video live p
        by (auto simp: get_torrent_download_def Let_def split: option.split)
      show ?thesis unfolding eq by (simp add: header_set)
    next
      case ok: True
      then obtain st en where se: "a = Some st" "b = Some en" "\<not> st > en" by blast
      have eq: "fst (get_torrent_download torrents torrentId range_hdr now s) =
              (setHeader ''Content-Length'' (show_int (en - st + 1))
              (setHeader ''Content-Range''
                 (''bytes '' @ show_int st @ ''-'' @ show_int en @ ''/'' @
                  show_int (flength videoFile))
                 (?res1\<lparr> status := 206 \<rparr>)))\<lparr> body := Pipe st en \<rparr>"
        using True found video live p se
        by (auto simp: get_torrent_download_def Let_def)
      show ?thesis unfolding eq by (simp add: header_set)
    qed
  qed
  have b: "length (sanitize (name videoFile)) = length (name videoFile)"
    by (simp add: sanitize_def)
  have c: "\<forall>i < length (name videoFile).
            sanitize (name videoFile) ! i =
              (if name videoFile ! i
                    \<in> set ''abcdefghijklmnopqrstuvwxyzABCDEFGHIJKLMNOPQRSTUVWXYZ0123456789.-''
               then name videoFile ! i else CHR ''_'')"
  proof (intro allI impI)
    fix i assume "i < length (name videoFile)"
    then have "sanitize (name videoFile) ! i = sanitize_char (name videoFile ! i)"
      unfolding sanitize_def by (rule nth_map)
    then show "sanitize (name videoFile) ! i =
              (if name videoFile ! i
                    \<in> set ''abcdefghijklmnopqrstuvwxyzABCDEFGHIJKLMNOPQRSTUVWXYZ0123456789.-''
               then name videoFile ! i else CHR ''_'')"
      unfolding sanitize_char_def .
  qed
  have "set (sanitize (name videoFile)) \<subseteq>
        insert (CHR ''_'')
          (set ''abcdefghijklmnopqrstuvwxyzABCDEFGHIJKLMNOPQRSTUVWXYZ0123456789.-'')"
    unfolding sanitize_def using sanitize_char_safe by (auto simp only: set_map)
  then have d: "\<forall>c \<in> set (sanitize (name videoFile)).
            c \<noteq> CHR 0x22 \<and> c \<noteq> CHR '' '' \<and> 32 < (of_char c :: nat) \<and> (of_char c :: nat) < 127"
    using safe_chars_printable by blast
  show ?thesis using a b c d by blast
qed

theorem download_filename_sanitized_witness:
  "find (\<lambda>t. infoHash t = ''q'') [quoted_torrent] = Some quoted_torrent \<and>
   find isVideo (files quoted_torrent) = Some quoted_movie \<and>
   \<not> destroyed quoted_torrent \<and>
   map_of (headers (fst (get_torrent_download [quoted_torrent] ''q'' None 7 server0)))
     ''Content-Disposition''
     = Some (''attachment; filename='' @ [CHR 0x22] @ ''a__b_.mp4'' @ [CHR 0x22])"
proof -
  have a: "find (\<lambda>t. infoHash t = ''q'') [quoted_torrent] = Some quoted_torrent" by code_simp
  have b: "find isVideo (files quoted_torrent) = Some quoted_movie" by code_simp
  have c: "\<not> destroyed quoted_torrent" by (simp add: quoted_torrent_def)
  have d: "sanitize (name quoted_movie) = ''a__b_.mp4''" by code_simp
  show ?thesis
    using download_filename_sanitized[OF a b c, of None 7 server0] a b c d by simp
qed


section \<open>Claims about the piece-priority callbacks\<close>

subsection \<open>Rounding keeps the sign\<close>

lemma pow2_pos: "0 < pow2 k"
  by (simp add: pow2_def)

lemma round_half_even_nonneg: "0 \<le> q \<Longrightarrow> 0 \<le> round_half_even q"
  by (simp add: round_half_even_def Let_def)

lemma fl_nonneg:
  assumes "0 \<le> x"
  shows "0 \<le> fl x"
proof (cases "x = 0")
  case True
  then show ?thesis by (simp add: fl_def)
next
  case False
  let ?u = "pow2 (ilog2 x - 52)"
  have u: "0 < ?u" by (rule pow2_pos)
  have "0 \<le> x / ?u" using assms u by simp
  then have "0 \<le> round_half_even (x / ?u)" by (rule round_half_even_nonneg)
  then have "0 \<le> (of_int (round_half_even (x / ?u)) :: rat) * ?u" using u by simp
  then show ?thesis using False assms by (simp add: fl_def fl_pos_def Let_def)
qed

text \<open>
  C7, as stated, fails on an early tick: at a progress of 0.005, with a selected file and 1000
  pieces that are all there and not done, the current piece is 5 and the specification's window
  holds the pieces 5 to 24, while the handler raises no priority at all.
\<close>

theorem early_tick_counterexample:
  "find isVideo (files early_tick) = Some movie \<and>
   length (pieces early_tick) = 1000 \<and>
   progress_read early_tick = fl (1 / 200) \<and>
   \<not> progress_read early_tick > fl (1 / 100) \<and>
   \<lfloor>fl (progress_read early_tick * of_nat (length (pieces early_tick)))\<rfloor> = 5 \<and>
   spec_window early_tick =
     [5, 6, 7, 8, 9, 10, 11, 12, 13, 14, 15, 16, 17, 18, 19, 20, 21, 22, 23, 24] \<and>
   on_download early_tick = []"
  by code_simp

text \<open>
  C7, amended. On a progress tick of a session with a selected file the handler acts only when
  the progress ratio is above 0.01. It then computes the current piece as the floor of the
  ratio times the number of pieces, the product being rounded to a double first, and calls
  \<^verbatim>\<open>priority(1)\<close>, in increasing order and once each, on exactly the indices from the current
  piece up to \<^const>\<open>bufferAhead\<close> further, clamped to the number of pieces, whose slot is there, is
  not done and has a \<^verbatim>\<open>priority\<close> function; the others are skipped. At a ratio of 0.01 or
  less it raises nothing. When the torrent becomes ready, before any progress, it calls
  \<^verbatim>\<open>priority(1)\<close> on the indices below 100 (and below the number of pieces) whose slot is there
  and has a \<^verbatim>\<open>priority\<close> function. The rounding shows in the examples: at 0.29 of 100 pieces
  the window starts at 28, and at a third of 3 pieces at 1.
\<close>

theorem priority_window:
  assumes video: "find isVideo (files tor) = Some videoFile"
  shows "(progress_read tor > fl (1 / 100) \<longrightarrow>
            0 \<le> \<lfloor>fl (progress_read tor * of_nat (length (pieces tor)))\<rfloor> \<and>
            set (on_download tor) =
              {i. \<lfloor>fl (progress_read tor * of_nat (length (pieces tor)))\<rfloor> \<le> i \<and>
                  i < \<lfloor>fl (progress_read tor * of_nat (length (pieces tor)))\<rfloor> + bufferAhead \<and>
                  i < int (length (pieces tor)) \<and>
                  (\<exists>p. pieces tor ! nat i = Some p \<and> \<not> piece_done p \<and> has_priority p)}) \<and>
         (progress_read tor \<le> fl (1 / 100) \<longrightarrow> on_download tor = []) \<and>
         set (on_ready tor) =
           {i. i < 100 \<and> i < length (pieces tor) \<and>
               (\<exists>p. pieces tor ! i = Some p \<and> has_priority p)} \<and>
         sorted (on_download tor) \<and> distinct (on_download tor) \<and>
         sorted (on_ready tor) \<and> distinct (on_ready tor)"
proof -
  let ?cur = "\<lfloor>fl (progress_read tor * of_nat (length (pieces tor)))\<rfloor>"
  let ?ok = "\<lambda>i. case pieces tor ! nat i of None \<Rightarrow> False
                    | Some p \<Rightarrow> \<not> piece_done p \<and> has_priority p"
  have files: "files tor \<noteq> []" using video by auto
  have okiff: "?ok i \<longleftrightarrow> (\<exists>p. pieces tor ! nat i = Some p \<and> \<not> piece_done p \<and> has_priority p)"
    for i by (simp split: option.split)
  have dl: "on_download tor =
              filter ?ok [?cur .. min (?cur + bufferAhead) (int (length (pieces tor))) - 1]"
    if "progress_read tor > fl (1 / 100)"
    using that files video by (simp add: on_download_def Let_def)
  have a: "0 \<le> ?cur \<and> set (on_download tor) =
              {i. ?cur \<le> i \<and> i < ?cur + bufferAhead \<and> i < int (length (pieces tor)) \<and>
                  (\<exists>p. pieces tor ! nat i = Some p \<and> \<not> piece_done p \<and> has_priority p)}"
    if gt: "progress_read tor > fl (1 / 100)"
  proof -
    have "(0::rat) \<le> fl (1 / 100)" by (rule fl_nonneg) simp
    then have "0 \<le> progress_read tor * of_nat (length (pieces tor))" using gt by simp
    then have "0 \<le> fl (progress_read tor * of_nat (length (pieces tor)))" by (rule fl_nonneg)
    then have "0 \<le> ?cur" by simp
    moreover have "set (on_download tor) =
              {i. ?cur \<le> i \<and> i < ?cur + bufferAhead \<and> i < int (length (pieces tor)) \<and>
                  (\<exists>p. pieces tor ! nat i = Some p \<and> \<not> piece_done p \<and> has_priority p)}"
      unfolding dl[OF gt] set_filter okiff by auto
    ultimately show ?thesis ..
  qed
  have b: "on_download tor = []" if "progress_read tor \<le> fl (1 / 100)"
    using that by (simp add: on_download_def)
  have rd: "on_ready tor =
              filter (\<lambda>i. case pieces tor ! i of None \<Rightarrow> False | Some p \<Rightarrow> has_priority p)
                [0 ..< min (length (pieces tor)) 100]"
    using files video by (simp add: on_ready_def Let_def)
  have c: "set (on_ready tor) =
           {i. i < 100 \<and> i < length (pieces tor) \<and>
               (\<exists>p. pieces tor ! i = Some p \<and> has_priority p)}"
    unfolding rd by (auto split: option.splits)
  have d: "sorted (on_download tor) \<and> distinct (on_download tor)"
  proof (cases "progress_read tor > fl (1 / 100)")
    case True
    have "sorted (on_download tor)" unfolding dl[OF True] by (rule sorted_wrt_filter) simp
    moreover have "distinct (on_download tor)" unfolding dl[OF True] by simp
    ultimately show ?thesis ..
  next
    case False
    then show ?thesis using b by simp
  qed
  have e: "sorted (on_ready tor)" unfolding rd by (rule sorted_wrt_filter) simp
  have f: "distinct (on_ready tor)" unfolding rd by simp
  show ?thesis using a b c d e f by blast
qed

theorem priority_window_witness:
  "find isVideo (files mid_tick) = Some movie \<and>
   progress_read mid_tick = 1 / 2 \<and>
   progress_read mid_tick > fl (1 / 100) \<and>
   \<lfloor>fl (progress_read mid_tick * of_nat (length (pieces mid_tick)))\<rfloor> = 500 \<and>
   set (on_download mid_tick) =
     {i. 500 \<le> i \<and> i < 500 + bufferAhead \<and> i < int (length (pieces mid_tick)) \<and>
         (\<exists>p. pieces mid_tick ! nat i = Some p \<and> \<not> piece_done p \<and> has_priority p)} \<and>
   on_download mid_tick =
     [500, 501, 502, 503, 504, 505, 506, 507, 508, 509,
      510, 511, 512, 513, 514, 515, 516, 517, 518, 519] \<and>
   on_download (tick (29 / 100) 100) =
     [28, 29, 30, 31, 32, 33, 34, 35, 36, 37, 38, 39, 40, 41, 42, 43, 44, 45, 46, 47] \<and>
   on_download (tick (fl (29 / 100)) 100) = on_download (tick (29 / 100) 100) \<and>
   on_download (tick (1 / 3) 3) = [1, 2] \<and>
   on_download (tick (fl (1 / 3)) 3) = [1, 2]"
proof -
  have a: "find isVideo (files mid_tick) = Some movie" by code_simp
  have a': "progress_read mid_tick = 1 / 2" by code_simp
  have b: "progress_read mid_tick > fl (1 / 100)" by code_simp
  have c: "\<lfloor>fl (progress_read mid_tick * of_nat (length (pieces mid_tick)))\<rfloor> = 500" by code_simp
  have d: "on_download mid_tick =
     [500, 501, 502, 503, 504, 505, 506, 507, 508, 509,
      510, 511, 512, 513, 514, 515, 516, 517, 518, 519]" by code_simp
  have e: "on_download (tick (29 / 100) 100) =
     [28, 29, 30, 31, 32, 33, 34, 35, 36, 37, 38, 39, 40, 41, 42, 43, 44, 45, 46, 47]"
    by code_simp
  have e': "on_download (tick (fl (29 / 100)) 100) = on_download (tick (29 / 100) 100)"
    by code_simp
  have f: "on_download (tick (1 / 3) 3) = [1, 2]" by code_simp
  have f': "on_download (tick (fl (1 / 3)) 3) = [1, 2]" by code_simp
  have "set (on_download mid_tick) =
     {i. 500 \<le> i \<and> i < 500 + bufferAhead \<and> i < int (length (pieces mid_tick)) \<and>
         (\<exists>p. pieces mid_tick ! nat i = Some p \<and> \<not> piece_done p \<and> has_priority p)}"
    using priority_window[OF a] b unfolding c by blast
  then show ?thesis using a a' b c d e e' f f' by blast
qed

section \<open>Claims about the search\<close>






end
